theory Spec2Isabelle
  imports Complex_Main "HOL-Library.Sublist" "HOL-Library.Word"
begin

section \<open>JavaScript values used by the components\<close>

text \<open>
  The outcome of an awaited promise: the \<open>try\<close> block continues with the value, or the
  \<open>catch\<close> block runs with the error (its message).
\<close>

datatype 'a settled = Rejected string | Resolved 'a

text \<open>
  Strings are lists of code units below 256. A count is a JavaScript number that holds a
  non-negative integer below \<open>2^53\<close> (a safe integer), a \<open>53 word\<close>: such a number is
  exact, and a template literal prints it as its decimal digits, which \<open>show_nat\<close> gives.
  Larger numbers, which a double rounds and may print with an exponent, and numbers that are
  no integers are not values of the model.
\<close>

definition digit :: "nat \<Rightarrow> char" where
  "digit d = ''0123456789'' ! d"

function show_nat :: "nat \<Rightarrow> string" where
  "show_nat n = (if n < 10 then [digit n] else show_nat (n div 10) @ [digit (n mod 10)])"
  by pat_completeness auto
termination
  by (relation "measure id") auto

declare show_nat.simps [simp del]

section \<open>LogUploader.jsx: the upload form and its job poller\<close>

text \<open>
  The record returned by \<open>getJob\<close>. \<open>processed_count\<close> and \<open>error\<close> may be absent;
  the component reads them through \<open>||\<close>, so an absent, zero or empty value takes the default.
\<close>

record job =
  job_status :: string
  processed_count :: "53 word option"
  job_error :: "string option"

definition count_or_zero :: "53 word option \<Rightarrow> 53 word" where
  "count_or_zero c = (case c of None \<Rightarrow> 0 | Some n \<Rightarrow> n)"

definition error_or_unknown :: "string option \<Rightarrow> string" where
  "error_or_unknown e = (case e of None \<Rightarrow> ''Unknown error''
                         | Some t \<Rightarrow> if t = [] then ''Unknown error'' else t)"

text \<open>
  Everything the component does to the outside or to its own state is appended to a trace:
  requests, timer calls, the \<open>onComplete\<close> callback (with the identity of the function
  called), console output and every state setter.
\<close>

datatype effect =
    UploadLog string
  | GetJob string
  | SetInterval nat
  | ClearInterval nat
  | OnComplete nat
  | ConsoleError string
  | SetFile string
  | SetStatus string
  | SetProgress nat
  | SetJobId "string option"
  | SetDisplayText string

text \<open>
  The component: its five state variables, the ref, the \<open>onComplete\<close> prop (identified by
  a number, \<open>None\<close> when the parent passes none), and the part of the browser it talks to:
  the live intervals (handle, and the \<open>jobId\<close> and \<open>onComplete\<close> their callback closed over),
  the \<open>getJob\<close> requests awaiting an answer (with the same closure), the number of
  \<open>uploadLog\<close> calls awaiting an answer, and the last timer handle handed out.
  The state variable \<open>file\<close> is the field \<open>file0\<close> (the name of the chosen file).
\<close>

record uploader =
  file0 :: "string option"
  status :: string
  progress :: nat
  jobId :: "string option"
  displayText :: string
  intervalRef :: "nat option"
  onComplete :: "nat option"
  timers :: "(nat \<times> string \<times> nat option) list"
  inflight :: "(string \<times> nat option) list"
  uploads :: nat
  last_timer :: nat
  effects :: "effect list"

definition emit :: "effect \<Rightarrow> uploader \<Rightarrow> uploader" where
  "emit e s = s\<lparr>effects := effects s @ [e]\<rparr>"

definition setFile :: "string \<Rightarrow> uploader \<Rightarrow> uploader" where
  "setFile f s = emit (SetFile f) (s\<lparr>file0 := Some f\<rparr>)"

definition setStatus :: "string \<Rightarrow> uploader \<Rightarrow> uploader" where
  "setStatus v s = emit (SetStatus v) (s\<lparr>status := v\<rparr>)"

definition setProgress :: "nat \<Rightarrow> uploader \<Rightarrow> uploader" where
  "setProgress p s = emit (SetProgress p) (s\<lparr>progress := p\<rparr>)"

definition setJobId :: "string option \<Rightarrow> uploader \<Rightarrow> uploader" where
  "setJobId j s = emit (SetJobId j) (s\<lparr>jobId := j\<rparr>)"

definition setDisplayText :: "string \<Rightarrow> uploader \<Rightarrow> uploader" where
  "setDisplayText t s = emit (SetDisplayText t) (s\<lparr>displayText := t\<rparr>)"

text \<open>\<open>clearInterval(h)\<close>: the interval with that handle, if any, never fires again.\<close>

definition clearInterval :: "nat \<Rightarrow> uploader \<Rightarrow> uploader" where
  "clearInterval h s = emit (ClearInterval h) (s\<lparr>timers := filter (\<lambda>t. fst t \<noteq> h) (timers s)\<rparr>)"

text \<open>\<open>clearInterval(intervalRef.current)\<close>; on \<open>null\<close> the browser does nothing.\<close>

definition clearInterval_current :: "uploader \<Rightarrow> uploader" where
  "clearInterval_current s = (case intervalRef s of None \<Rightarrow> s | Some h \<Rightarrow> clearInterval h s)"

text \<open>\<open>if (cb) cb()\<close> on the callback the closure captured.\<close>

definition call_onComplete :: "nat option \<Rightarrow> uploader \<Rightarrow> uploader" where
  "call_onComplete cb s = (case cb of None \<Rightarrow> s | Some f \<Rightarrow> emit (OnComplete f) s)"

subsection \<open>The polling effect\<close>

text \<open>
  The effect's body: with status \<open>Processing\<close> and a truthy \<open>jobId\<close> it starts an interval
  and stores the handle in the ref. Handles are positive integers.
\<close>

definition effect_body :: "uploader \<Rightarrow> uploader" where
  "effect_body s =
     (case jobId s of
        None \<Rightarrow> s
      | Some j \<Rightarrow>
          if status s = ''Processing'' \<and> j \<noteq> [] then
            (let h = Suc (last_timer s)
             in emit (SetInterval h)
                  (s\<lparr>intervalRef := Some h, timers := timers s @ [(h, j, onComplete s)],
                     last_timer := h\<rparr>))
          else s)"

text \<open>The effect's cleanup: \<open>if (intervalRef.current) clearInterval(intervalRef.current)\<close>.\<close>

definition effect_cleanup :: "uploader \<Rightarrow> uploader" where
  "effect_cleanup s =
     (case intervalRef s of
        None \<Rightarrow> s
      | Some h \<Rightarrow> if h = 0 then s else clearInterval h s)"

text \<open>
  After a handler has run, React renders again; when one of the dependencies
  \<open>[status, jobId, onComplete]\<close> differs from the previous render, the previous cleanup runs
  and then the body. State updates made by one handler are rendered together.
\<close>

definition rerender :: "uploader \<Rightarrow> uploader \<Rightarrow> uploader" where
  "rerender old new =
     (if status new = status old \<and> jobId new = jobId old \<and> onComplete new = onComplete old
      then new
      else effect_body (effect_cleanup new))"

text \<open>
  The interval's callback after \<open>await getJob(jobId)\<close>, given how the request settled and the
  \<open>onComplete\<close> the callback closed over.
\<close>

definition on_job :: "nat option \<Rightarrow> job settled \<Rightarrow> uploader \<Rightarrow> uploader" where
  "on_job cb r s =
     (case r of
        Rejected e \<Rightarrow> emit (ConsoleError e) s
      | Resolved j \<Rightarrow>
          if job_status j = ''completed'' then
            call_onComplete cb
              (clearInterval_current
                (setDisplayText (''Done! '' @ show_nat (unat (count_or_zero (processed_count j)))
                                  @ '' logs processed.'')
                  (setProgress 100 (setStatus ''Completed'' s))))
          else if job_status j = ''failed'' then
            clearInterval_current
              (setDisplayText (''Error: '' @ error_or_unknown (job_error j))
                (setStatus ''Failed'' s))
          else s)"

subsection \<open>The handlers\<close>

text \<open>\<open>handleFileSelect\<close> and \<open>handleDrop\<close>: the argument is \<open>files[0]\<close>, if there is one.\<close>

definition handleFileSelect :: "string option \<Rightarrow> uploader \<Rightarrow> uploader" where
  "handleFileSelect f s =
     (case f of
        None \<Rightarrow> s
      | Some sel \<Rightarrow>
          setDisplayText [] (setJobId None (setProgress 0 (setStatus ''Queued'' (setFile sel s)))))"

definition handleDrop :: "string option \<Rightarrow> uploader \<Rightarrow> uploader" where
  "handleDrop f s =
     (case f of
        None \<Rightarrow> s
      | Some sel \<Rightarrow>
          setDisplayText [] (setJobId None (setProgress 0 (setStatus ''Queued'' (setFile sel s)))))"

text \<open>\<open>handleUpload\<close> up to its \<open>await\<close>, and its two continuations.\<close>

definition handleUpload :: "uploader \<Rightarrow> uploader" where
  "handleUpload s =
     (case file0 s of
        None \<Rightarrow> s
      | Some f \<Rightarrow>
          (let s1 = setDisplayText [] (setJobId None (setProgress 0 (setStatus ''Uploading'' s)))
           in emit (UploadLog f) (s1\<lparr>uploads := Suc (uploads s1)\<rparr>)))"

definition on_upload :: "string settled \<Rightarrow> uploader \<Rightarrow> uploader" where
  "on_upload r s =
     (case r of
        Resolved job_id \<Rightarrow>
          setDisplayText ''Processing...''
            (setStatus ''Processing'' (setJobId (Some job_id) s))
      | Rejected msg \<Rightarrow>
          setDisplayText (''Upload failed: '' @ msg) (setStatus ''Failed'' s))"

subsection \<open>The component as a machine driven by browser events\<close>

text \<open>
  What happens to the component, one event at a time: the user's actions, the progress of
  an upload, the settling of an \<open>uploadLog\<close> call, the tick of an interval (by handle),
  the settling of a \<open>getJob\<close> request (by its position among those in flight), and a
  render of the parent with another \<open>onComplete\<close>. The two functions of
  \<open>api/client\<close> are outside the component: a call is an entry of the trace, and its
  answer is an event that carries the value or the error.
\<close>

datatype event =
    FileSelect "string option"
  | Drop "string option"
  | Upload
  | UploadProgress nat
  | UploadSettled "string settled"
  | Tick nat
  | JobSettled nat "job settled"
  | Props "nat option"

definition initial :: "nat option \<Rightarrow> uploader" where
  "initial cb = effect_body
     \<lparr>file0 = None, status = ''Queued'', progress = 0, jobId = None, displayText = [],
      intervalRef = None, onComplete = cb, timers = [], inflight = [], uploads = 0,
      last_timer = 0, effects = []\<rparr>"

fun step :: "event \<Rightarrow> uploader \<Rightarrow> uploader" where
  "step (FileSelect f) s = rerender s (handleFileSelect f s)"
| "step (Drop f) s = rerender s (handleDrop f s)"
| "step Upload s = rerender s (handleUpload s)"
| "step (UploadProgress p) s = (if uploads s = 0 then s else setProgress p s)"
| "step (UploadSettled r) s =
     (if uploads s = 0 then s
      else rerender s (on_upload r (s\<lparr>uploads := uploads s - 1\<rparr>)))"
| "step (Tick h) s =
     (case filter (\<lambda>t. fst t = h) (timers s) of
        [] \<Rightarrow> s
      | (_, j, cb) # _ \<Rightarrow> emit (GetJob j) (s\<lparr>inflight := inflight s @ [(j, cb)]\<rparr>))"
| "step (JobSettled k r) s =
     (if k < length (inflight s) then
        (let cb = snd (inflight s ! k);
             s1 = s\<lparr>inflight := take k (inflight s) @ drop (Suc k) (inflight s)\<rparr>
         in rerender s1 (on_job cb r s1))
      else s)"
| "step (Props cb) s = rerender s (s\<lparr>onComplete := cb\<rparr>)"

fun run :: "event list \<Rightarrow> uploader \<Rightarrow> uploader" where
  "run [] s = s"
| "run (e # es) s = run es (step e s)"

text \<open>
  The component is polling job \<open>j\<close> through interval \<open>h\<close>: status \<open>Processing\<close>, the job id
  set, exactly that interval running with its handle in the ref, and every request in flight
  sent by it (its callback closed over the current \<open>onComplete\<close>).
\<close>

definition polling :: "nat \<Rightarrow> string \<Rightarrow> uploader \<Rightarrow> bool" where
  "polling h j s \<longleftrightarrow>
     status s = ''Processing'' \<and> jobId s = Some j \<and> j \<noteq> [] \<and>
     intervalRef s = Some h \<and> h \<noteq> 0 \<and> timers s = [(h, j, onComplete s)] \<and>
     (\<forall>p\<in>set (inflight s). snd p = onComplete s)"

text \<open>A poll result that ends the job: the backend reports \<open>completed\<close> or \<open>failed\<close>.\<close>

definition terminal :: "job settled \<Rightarrow> bool" where
  "terminal r = (case r of Rejected _ \<Rightarrow> False
                 | Resolved j \<Rightarrow> job_status j = ''completed'' \<or> job_status j = ''failed'')"

text \<open>
  The events of polling: a tick of some interval, or the answer to some request. Such an
  event is quiet when it does not end the job: a tick, a transport error, or an answer with
  any status other than \<open>completed\<close> and \<open>failed\<close>.
\<close>

definition poll_event :: "event \<Rightarrow> bool" where
  "poll_event e = (case e of Tick _ \<Rightarrow> True | JobSettled _ _ \<Rightarrow> True | _ \<Rightarrow> False)"

definition quiet :: "event \<Rightarrow> bool" where
  "quiet e = (case e of Tick _ \<Rightarrow> True | JobSettled _ r \<Rightarrow> \<not> terminal r | _ \<Rightarrow> False)"

text \<open>
  What a quiet event adds to the trace of a component that polls job \<open>j\<close> through
  interval \<open>h\<close>, and what a list of them adds, one after the other.
\<close>

definition quiet_trace :: "nat \<Rightarrow> string \<Rightarrow> uploader \<Rightarrow> event \<Rightarrow> effect list" where
  "quiet_trace h j s e =
     (case e of
        Tick h' \<Rightarrow> if h' = h then [GetJob j] else []
      | JobSettled k (Rejected m) \<Rightarrow> if k < length (inflight s) then [ConsoleError m] else []
      | _ \<Rightarrow> [])"

fun quiet_traces :: "nat \<Rightarrow> string \<Rightarrow> uploader \<Rightarrow> event list \<Rightarrow> effect list" where
  "quiet_traces h j s [] = []"
| "quiet_traces h j s (e # es) = quiet_trace h j s e @ quiet_traces h j (step e s) es"

text \<open>No interval runs and the status is not \<open>Processing\<close>.\<close>

definition stopped :: "uploader \<Rightarrow> bool" where
  "stopped s \<longleftrightarrow> timers s = [] \<and> status s \<noteq> ''Processing''"

text \<open>Counting in a trace: poll requests, calls of \<open>onComplete\<close>, failure notifications.\<close>

definition polls :: "effect list \<Rightarrow> nat" where
  "polls t = length (filter (\<lambda>e. case e of GetJob _ \<Rightarrow> True | _ \<Rightarrow> False) t)"

definition completions :: "effect list \<Rightarrow> nat" where
  "completions t = length (filter (\<lambda>e. case e of OnComplete _ \<Rightarrow> True | _ \<Rightarrow> False) t)"

definition failures :: "effect list \<Rightarrow> nat" where
  "failures t = length (filter (\<lambda>e. e = SetStatus ''Failed'') t)"

text \<open>What was added to the trace between an earlier state and a later one.\<close>

definition since :: "uploader \<Rightarrow> uploader \<Rightarrow> effect list" where
  "since s s' = drop (length (effects s)) (effects s')"

text \<open>The message shown for a completed job.\<close>

definition done_text :: "job \<Rightarrow> string" where
  "done_text c = ''Done! '' @ show_nat (unat (count_or_zero (processed_count c))) @ '' logs processed.''"

text \<open>
  A concrete run: a file is chosen and uploaded, the upload answers with job \<open>abc123\<close>,
  and the component starts polling. Then a schedule in which requests overlap: the
  interval ticks while earlier requests are unanswered, one request fails, and the answers
  come out of order; every answer leaves the job unfinished. An answer that ends the
  job with a given status is \<open>final_answer\<close>.
\<close>

definition started :: uploader where
  "started = run [FileSelect (Some ''app.log''), Upload, UploadSettled (Resolved ''abc123'')]
               (initial (Some 1))"

definition report :: "string \<Rightarrow> 53 word option \<Rightarrow> string option \<Rightarrow> job settled" where
  "report st n e = Resolved \<lparr>job_status = st, processed_count = n, job_error = e\<rparr>"

definition overlapping :: "event list" where
  "overlapping = [Tick 1, JobSettled 0 (report ''queued'' None None), Tick 1, Tick 1,
     JobSettled 0 (Rejected ''Network Error''), Tick 1,
     JobSettled 1 (report ''processing'' (Some 42) None)]"

definition final_answer :: "string \<Rightarrow> job" where
  "final_answer st = \<lparr>job_status = st, processed_count = Some 42,
                      job_error = (if st = ''failed'' then Some ''bad format'' else None)\<rparr>"

text \<open>
  A second concrete run: while job \<open>job-a\<close> is being polled and one of its requests is
  still unanswered, another file is dropped on the form and uploaded, which starts job
  \<open>job-b\<close>.
\<close>

definition superseded :: uploader where
  "superseded = run [FileSelect (Some ''a.log''), Upload, UploadSettled (Resolved ''job-a''),
      Tick 1, Drop (Some ''b.log''), Upload, UploadSettled (Resolved ''job-b'')] (initial (Some 1))"

text \<open>
  A third: the interval has ticked twice after the start and neither request has been
  answered, as happens when an answer takes longer than the period of the interval.
\<close>

definition two_in_flight :: uploader where
  "two_in_flight = run [Tick 1, Tick 1] started"

section \<open>AskAI.jsx: the streaming query box\<close>

text \<open>
  The values the final callback can receive: the parsed result of the analysis service
  (text, lists and objects; an object is the list of its properties in enumeration order,
  with distinct keys), or \<open>null\<close>. The result schema has no numbers or booleans.
\<close>

datatype json = JNull | JStr string | JArr "json list" | JObj "(string \<times> json) list"

text \<open>Truthiness, as \<open>if (v)\<close> tests it.\<close>

fun truthy :: "json \<Rightarrow> bool" where
  "truthy JNull = False"
| "truthy (JStr t) = (t \<noteq> [])"
| "truthy (JArr _) = True"
| "truthy (JObj _) = True"

text \<open>\<open>xs.join(sep)\<close> on strings.\<close>

fun join :: "string \<Rightarrow> string list \<Rightarrow> string" where
  "join sep [] = []"
| "join sep [x] = x"
| "join sep (x # y # ys) = x @ sep @ join sep (y # ys)"

text \<open>
  The string a template literal puts in for a value: text as it is, an array as its
  elements joined by commas (\<open>null\<close> elements as nothing), an object as \<open>[object Object]\<close>.
\<close>

fun to_string :: "json \<Rightarrow> string" where
  "to_string JNull = ''null''"
| "to_string (JStr t) = t"
| "to_string (JArr xs) = join '','' (map (\<lambda>x. if x = JNull then [] else to_string x) xs)"
| "to_string (JObj _) = ''[object Object]''"

text \<open>\<open>JSON.stringify(v, null, 2)\<close>: string escapes, two spaces per nesting level.\<close>

definition hex_digit :: "nat \<Rightarrow> char" where
  "hex_digit d = ''0123456789abcdef'' ! d"

definition escape_char :: "char \<Rightarrow> string" where
  "escape_char c =
     (if c = CHR 0x22 then [CHR 0x5C, CHR 0x22]
      else if c = CHR 0x5C then [CHR 0x5C, CHR 0x5C]
      else if c = CHR 0x08 then [CHR 0x5C, CHR ''b'']
      else if c = CHR 0x09 then [CHR 0x5C, CHR ''t'']
      else if c = CHR 0x0A then [CHR 0x5C, CHR ''n'']
      else if c = CHR 0x0C then [CHR 0x5C, CHR ''f'']
      else if c = CHR 0x0D then [CHR 0x5C, CHR ''r'']
      else if of_char c < (32::nat) then
        [CHR 0x5C, CHR ''u'', CHR ''0'', CHR ''0'',
         hex_digit (of_char c div 16), hex_digit (of_char c mod 16)]
      else [c])"

definition quote :: "string \<Rightarrow> string" where
  "quote t = CHR 0x22 # concat (map escape_char t) @ [CHR 0x22]"

definition indent :: "nat \<Rightarrow> string" where
  "indent d = replicate (2 * d) CHR '' ''"

definition newline :: string where
  "newline = [CHR 0x0A]"

fun stringify :: "nat \<Rightarrow> json \<Rightarrow> string" where
  "stringify d JNull = ''null''"
| "stringify d (JStr t) = quote t"
| "stringify d (JArr xs) =
     (if xs = [] then ''[]''
      else ''['' @ newline @ indent (Suc d)
           @ join ('','' @ newline @ indent (Suc d)) (map (stringify (Suc d)) xs)
           @ newline @ indent d @ '']'')"
| "stringify d (JObj kvs) =
     (if kvs = [] then ''{}''
      else ''{'' @ newline @ indent (Suc d)
           @ join ('','' @ newline @ indent (Suc d))
               (map (\<lambda>kv. quote (fst kv) @ '': '' @ stringify (Suc d) (snd kv)) kvs)
           @ newline @ indent d @ ''}'')"

text \<open>\<open>query.trim()\<close> is empty when every character is white space.\<close>

definition js_space :: "char \<Rightarrow> bool" where
  "js_space c \<longleftrightarrow> c \<in> {CHR 0x09, CHR 0x0A, CHR 0x0B, CHR 0x0C, CHR 0x0D, CHR 0x20, CHR 0xA0}"

definition blank :: "string \<Rightarrow> bool" where
  "blank q = list_all js_space q"

datatype ask_effect =
    AskAI string
  | SetQuery string
  | SetResponse string
  | SetIsStreaming bool
  | Uncaught string

text \<open>
  The component's three state variables; the \<open>tokenBuffer\<close> of every call of \<open>handleAsk\<close>
  so far (each call makes its own array, which its token callback closes over; a stream is
  named by the position of its buffer); and the trace.
\<close>

record askai =
  query :: string
  response :: string
  isStreaming :: bool
  tokenBuffer :: "string list list"
  ask_effects :: "ask_effect list"

definition ask_emit :: "ask_effect \<Rightarrow> askai \<Rightarrow> askai" where
  "ask_emit e s = s\<lparr>ask_effects := ask_effects s @ [e]\<rparr>"

definition setQuery :: "string \<Rightarrow> askai \<Rightarrow> askai" where
  "setQuery q s = ask_emit (SetQuery q) (s\<lparr>query := q\<rparr>)"

definition setResponse :: "string \<Rightarrow> askai \<Rightarrow> askai" where
  "setResponse t s = ask_emit (SetResponse t) (s\<lparr>response := t\<rparr>)"

definition setIsStreaming :: "bool \<Rightarrow> askai \<Rightarrow> askai" where
  "setIsStreaming b s = ask_emit (SetIsStreaming b) (s\<lparr>isStreaming := b\<rparr>)"

text \<open>\<open>handleAsk\<close> up to the call of \<open>askAI(query, [], onToken, onResult)\<close>.\<close>

definition handleAsk :: "askai \<Rightarrow> askai" where
  "handleAsk s =
     (if blank (query s) then s
      else ask_emit (AskAI (query s))
             ((setResponse [] (setIsStreaming True s))\<lparr>tokenBuffer := tokenBuffer s @ [[]]\<rparr>))"

text \<open>The token callback of stream \<open>k\<close>: push, then show the joined buffer.\<close>

definition onToken :: "nat \<Rightarrow> string \<Rightarrow> askai \<Rightarrow> askai" where
  "onToken k token s =
     (let buf = tokenBuffer s ! k @ [token]
      in setResponse (join [] buf) (s\<lparr>tokenBuffer := (tokenBuffer s)[k := buf]\<rparr>))"

text \<open>
  \<open>result.error\<close>: a property of an object; \<open>undefined\<close> on text and arrays. On \<open>null\<close>
  the access throws, which the callback handles separately below.
\<close>

definition error_of :: "json \<Rightarrow> json option" where
  "error_of r = (case r of JObj kvs \<Rightarrow> map_of kvs ''error'' | _ \<Rightarrow> None)"

definition has_error :: "json \<Rightarrow> bool" where
  "has_error r = (case error_of r of None \<Rightarrow> False | Some e \<Rightarrow> truthy e)"

text \<open>
  What the result callback shows for a result other than \<open>null\<close>: the error, the text, or
  the serialised object or array.
\<close>

definition result_text :: "json \<Rightarrow> string" where
  "result_text r =
     (case error_of r of
        Some e \<Rightarrow> if truthy e then ''Error: '' @ to_string e
                  else (case r of JStr t \<Rightarrow> t | _ \<Rightarrow> stringify 0 r)
      | None \<Rightarrow> (case r of JStr t \<Rightarrow> t | _ \<Rightarrow> stringify 0 r))"

text \<open>
  The result callback; it does not use the stream's buffer. On \<open>null\<close> the property
  access throws after \<open>setIsStreaming(false)\<close>.
\<close>

definition onResult :: "json \<Rightarrow> askai \<Rightarrow> askai" where
  "onResult r s =
     (let s1 = setIsStreaming False s
      in if r = JNull then ask_emit (Uncaught ''TypeError'') s1
         else setResponse (result_text r) s1)"

definition handleClear :: "askai \<Rightarrow> askai" where
  "handleClear s = setResponse [] (setQuery [] s)"

text \<open>
  The events: the user types, asks or clears; the \<open>askAI\<close> function of \<open>api/client\<close>
  (outside the component) calls the token callback or the result callback of stream \<open>k\<close>
  with a value.
\<close>

datatype ask_event =
    Typed string
  | Ask
  | Clear
  | Token nat string
  | Final nat json

definition ask_initial :: askai where
  "ask_initial = \<lparr>query = [], response = [], isStreaming = False, tokenBuffer = [],
                  ask_effects = []\<rparr>"

text \<open>Callbacks exist only for streams that were started.\<close>

fun ask_step :: "ask_event \<Rightarrow> askai \<Rightarrow> askai" where
  "ask_step (Typed q) s = setQuery q s"
| "ask_step Ask s = handleAsk s"
| "ask_step Clear s = handleClear s"
| "ask_step (Token k token) s = (if k < length (tokenBuffer s) then onToken k token s else s)"
| "ask_step (Final k r) s = (if k < length (tokenBuffer s) then onResult r s else s)"

fun ask_run :: "ask_event list \<Rightarrow> askai \<Rightarrow> askai" where
  "ask_run [] s = s"
| "ask_run (e # es) s = ask_run es (ask_step e s)"

text \<open>
  The values shown while the tokens \<open>ts\<close> arrive on a buffer that already holds \<open>b\<close>:
  one per token, each the concatenation of everything received by then.
\<close>

fun partials :: "string list \<Rightarrow> string list \<Rightarrow> string list" where
  "partials b [] = []"
| "partials b (t # ts) = concat (b @ [t]) # partials (b @ [t]) ts"

text \<open>
  Two concrete runs: a question has been asked, and the first token of its answer has
  arrived.
\<close>

definition asked :: askai where
  "asked = ask_run [Typed ''why?'', Ask] ask_initial"

definition one_token :: askai where
  "one_token = ask_run [Token 0 ''Analy''] asked"

section \<open>LogTable.jsx and App.jsx: filters, pages and the background refresh\<close>

text \<open>
  Filter values are the text of an input or a number (the anomaly threshold, a page);
  an object is the list of its properties in enumeration order, with distinct keys.
\<close>

datatype fval = Text string | Num rat

type_synonym obj = "(string \<times> fval) list"

text \<open>\<open>o[k] = v\<close>: an existing property keeps its place, a new one goes last.\<close>

fun assign :: "string \<Rightarrow> fval \<Rightarrow> obj \<Rightarrow> obj" where
  "assign k v [] = [(k, v)]"
| "assign k v (p # ps) = (if fst p = k then (k, v) # ps else p # assign k v ps)"

text \<open>\<open>{...base, ...ext}\<close>: the properties of \<open>ext\<close> are assigned in order.\<close>

fun spread :: "obj \<Rightarrow> obj \<Rightarrow> obj" where
  "spread base [] = base"
| "spread base (p # ps) = spread (assign (fst p) (snd p) base) ps"

subsection \<open>LogTable\<close>

record logtable =
  lt_filters :: obj
  expandedRow :: "nat option"

definition logtable_initial :: logtable where
  "logtable_initial =
     \<lparr>lt_filters = [(''service'', Text []), (''level'', Text []),
                     (''anomaly_threshold'', Num (1 / 2)), (''search'', Text [])],
      expandedRow = None\<rparr>"

text \<open>
  The table's \<open>handleFilterChange(name, value)\<close>: the new table state and the object it
  passes to \<open>onFilterChange\<close>, a copy of \<open>filters\<close> with the one property assigned.
\<close>

definition lt_handleFilterChange :: "string \<Rightarrow> fval \<Rightarrow> logtable \<Rightarrow> logtable \<times> obj" where
  "lt_handleFilterChange name v t =
     (let newFilters = assign name v (lt_filters t)
      in (t\<lparr>lt_filters := newFilters\<rparr>, newFilters))"

subsection \<open>App\<close>

text \<open>The answer of \<open>getLogs\<close>; each field is read through \<open>||\<close>.\<close>

record logs_response =
  r_logs :: "obj list option"
  r_total :: "nat option"
  r_pages :: "nat option"

datatype app_effect =
    GetAnalytics
  | GetLogs obj
  | FetchHealth
  | AppSetInterval nat
  | AppClearInterval nat
  | AppConsoleError string

text \<open>
  The state variables of \<open>App\<close> that the data flow uses, the ref of the refresh timer, the
  live intervals, the requests awaiting an answer (a \<open>getLogs\<close> request with the
  \<open>pageNum\<close> its continuation closed over) and the trace of requests, timer calls and
  console output.
\<close>

record app =
  analytics :: obj
  logs :: "obj list"
  total :: nat
  page :: int
  pages :: nat
  filters :: obj
  health :: bool
  analyticsIntervalRef :: "nat option"
  app_timers :: "nat list"
  app_last_timer :: nat
  pending_analytics :: nat
  pending_logs :: "int list"
  pending_health :: nat
  app_effects :: "app_effect list"

definition app_emit :: "app_effect \<Rightarrow> app \<Rightarrow> app" where
  "app_emit e s = s\<lparr>app_effects := app_effects s @ [e]\<rparr>"

text \<open>\<open>fetchAnalytics\<close> up to its \<open>await\<close>, and its continuation.\<close>

definition fetchAnalytics :: "app \<Rightarrow> app" where
  "fetchAnalytics s = app_emit GetAnalytics (s\<lparr>pending_analytics := Suc (pending_analytics s)\<rparr>)"

definition on_analytics :: "obj settled \<Rightarrow> app \<Rightarrow> app" where
  "on_analytics r s =
     (case r of
        Resolved d \<Rightarrow> s\<lparr>analytics := d\<rparr>
      | Rejected e \<Rightarrow> app_emit (AppConsoleError e) s)"

text \<open>\<open>fetchLogs(pageNum, filtersObj)\<close> up to its \<open>await\<close>, and its continuation.\<close>

definition fetchLogs :: "int \<Rightarrow> obj \<Rightarrow> app \<Rightarrow> app" where
  "fetchLogs pageNum filtersObj s =
     app_emit (GetLogs (spread [(''page'', Num (of_int pageNum))] filtersObj))
       (s\<lparr>pending_logs := pending_logs s @ [pageNum]\<rparr>)"

definition on_logs :: "int \<Rightarrow> logs_response settled \<Rightarrow> app \<Rightarrow> app" where
  "on_logs pageNum r s =
     (case r of
        Resolved a \<Rightarrow>
          s\<lparr>logs := (case r_logs a of None \<Rightarrow> [] | Some l \<Rightarrow> l),
            total := (case r_total a of None \<Rightarrow> 0 | Some n \<Rightarrow> n),
            page := pageNum,
            pages := (case r_pages a of None \<Rightarrow> 1 | Some n \<Rightarrow> if n = 0 then 1 else n)\<rparr>
      | Rejected e \<Rightarrow> app_emit (AppConsoleError e) s)"

text \<open>\<open>checkHealth\<close>: the answer carries \<open>response.ok\<close>; a failed request means offline.\<close>

definition checkHealth :: "app \<Rightarrow> app" where
  "checkHealth s = app_emit FetchHealth (s\<lparr>pending_health := Suc (pending_health s)\<rparr>)"

definition on_health :: "bool settled \<Rightarrow> app \<Rightarrow> app" where
  "on_health r s = (case r of Resolved ok \<Rightarrow> s\<lparr>health := ok\<rparr> | Rejected _ \<Rightarrow> s\<lparr>health := False\<rparr>)"

text \<open>
  The mount effect and its cleanup. The first render's \<open>fetchLogs(1)\<close> takes the default
  \<open>filtersObj\<close>, the \<open>filters\<close> of that render.
\<close>

definition app_initial :: app where
  "app_initial =
     \<lparr>analytics = [], logs = [], total = 0, page = 1, pages = 1, filters = [], health = False,
      analyticsIntervalRef = None, app_timers = [], app_last_timer = 0,
      pending_analytics = 0, pending_logs = [], pending_health = 0, app_effects = []\<rparr>"

definition mount :: "app \<Rightarrow> app" where
  "mount s =
     (let s1 = checkHealth (fetchLogs 1 (filters s) (fetchAnalytics s));
          h = Suc (app_last_timer s1)
      in app_emit (AppSetInterval h)
           (s1\<lparr>analyticsIntervalRef := Some h, app_timers := app_timers s1 @ [h],
               app_last_timer := h\<rparr>))"

definition unmount :: "app \<Rightarrow> app" where
  "unmount s =
     (case analyticsIntervalRef s of
        None \<Rightarrow> s
      | Some h \<Rightarrow>
          if h = 0 then s
          else app_emit (AppClearInterval h) (s\<lparr>app_timers := filter (\<lambda>t. t \<noteq> h) (app_timers s)\<rparr>))"

text \<open>The refresh interval's callback.\<close>

definition refresh :: "app \<Rightarrow> app" where
  "refresh s = checkHealth (fetchAnalytics s)"

text \<open>
  \<open>handleUploadComplete\<close> calls \<open>fetchLogs(1)\<close>, whose default \<open>filtersObj\<close> is the
  \<open>filters\<close> of the render that made the handler: the argument \<open>f\<close>.
\<close>

definition handleUploadComplete :: "obj \<Rightarrow> app \<Rightarrow> app" where
  "handleUploadComplete f s = fetchLogs 1 f (fetchAnalytics s)"

definition handleFilterChange :: "obj \<Rightarrow> app \<Rightarrow> app" where
  "handleFilterChange newFilters s = fetchLogs 1 newFilters (s\<lparr>filters := newFilters\<rparr>)"

definition handlePageChange :: "int \<Rightarrow> app \<Rightarrow> app" where
  "handlePageChange newPage s = fetchLogs newPage (filters s) s"

text \<open>
  The events: the handlers that the children call, a tick of an interval (by handle), and
  the settling of a request of each kind (a \<open>getLogs\<close> request by its position among
  those in flight).
\<close>

datatype app_event =
    FilterChange obj
  | PageChange int
  | UploadComplete obj
  | RefreshTick nat
  | AnalyticsSettled "obj settled"
  | LogsSettled nat "logs_response settled"
  | HealthSettled "bool settled"

fun app_step :: "app_event \<Rightarrow> app \<Rightarrow> app" where
  "app_step (FilterChange f) s = handleFilterChange f s"
| "app_step (PageChange n) s = handlePageChange n s"
| "app_step (UploadComplete f) s = handleUploadComplete f s"
| "app_step (RefreshTick h) s = (if h \<in> set (app_timers s) then refresh s else s)"
| "app_step (AnalyticsSettled r) s =
     (if pending_analytics s = 0 then s
      else on_analytics r (s\<lparr>pending_analytics := pending_analytics s - 1\<rparr>))"
| "app_step (LogsSettled k r) s =
     (if k < length (pending_logs s) then
        on_logs (pending_logs s ! k) r
          (s\<lparr>pending_logs := take k (pending_logs s) @ drop (Suc k) (pending_logs s)\<rparr>)
      else s)"
| "app_step (HealthSettled r) s =
     (if pending_health s = 0 then s
      else on_health r (s\<lparr>pending_health := pending_health s - 1\<rparr>))"

fun app_run :: "app_event list \<Rightarrow> app \<Rightarrow> app" where
  "app_run [] s = s"
| "app_run (e # es) s = app_run es (app_step e s)"

text \<open>The life of the application: mount, any events, unmount.\<close>

definition app_lifetime :: "app_event list \<Rightarrow> app" where
  "app_lifetime es = unmount (app_run es (mount app_initial))"

text \<open>
  A change of one filter field in the table, as the two components handle it together:
  the table's handler, then the one of \<open>App\<close> it calls through \<open>onFilterChange\<close>.
\<close>

definition applyFilter :: "string \<Rightarrow> fval \<Rightarrow> logtable \<times> app \<Rightarrow> logtable \<times> app" where
  "applyFilter name v ts =
     (let (t', newFilters) = lt_handleFilterChange name v (fst ts)
      in (t', handleFilterChange newFilters (snd ts)))"

text \<open>Counting in a trace: intervals started, intervals cleared, log requests.\<close>

definition timer_starts :: "app_effect list \<Rightarrow> nat" where
  "timer_starts t = length (filter (\<lambda>e. case e of AppSetInterval _ \<Rightarrow> True | _ \<Rightarrow> False) t)"

definition timer_stops :: "app_effect list \<Rightarrow> nat" where
  "timer_stops t = length (filter (\<lambda>e. case e of AppClearInterval _ \<Rightarrow> True | _ \<Rightarrow> False) t)"

definition fetches :: "app_effect list \<Rightarrow> nat" where
  "fetches t = length (filter (\<lambda>e. case e of GetLogs _ \<Rightarrow> True | _ \<Rightarrow> False) t)"

text \<open>
  The refresh timer as a state shows it: the ref, the live intervals, and how often the
  trace starts and clears an interval.
\<close>

definition timer_view :: "app \<Rightarrow> nat option \<times> nat list \<times> nat \<times> nat" where
  "timer_view s = (analyticsIntervalRef s, app_timers s, timer_starts (app_effects s),
                   timer_stops (app_effects s))"

text \<open>A concrete run: after the mount, page 3 is requested and its answer arrives.\<close>

definition on_page_three :: app where
  "on_page_three = app_run [PageChange 3,
      LogsSettled 1 (Resolved \<lparr>r_logs = Some [[(''level'', Text ''INFO'')]], r_total = Some 250,
                               r_pages = Some 5\<rparr>)]
      (mount app_initial)"

text \<open>A concrete table: the service filter has been set to \<open>payment-svc\<close>.\<close>

definition service_chosen :: logtable where
  "service_chosen = fst (applyFilter ''service'' (Text ''payment-svc'') (logtable_initial, app_initial))"

section \<open>Polling: events that do not end the job\<close>

lemma polls_append [simp]: "polls (a @ b) = polls a + polls b"
  by (simp add: polls_def)

lemma completions_append [simp]: "completions (a @ b) = completions a + completions b"
  by (simp add: completions_def)

lemma failures_append [simp]: "failures (a @ b) = failures a + failures b"
  by (simp add: failures_def)

lemma rerender_finished:
  assumes "status new \<noteq> ''Processing''" and "status old = ''Processing''"
    and "intervalRef new = Some h" and "h \<noteq> 0" and "timers new = []"
  shows "rerender old new = new\<lparr>effects := effects new @ [ClearInterval h]\<rparr>"
proof -
  have "rerender old new = effect_body (effect_cleanup new)"
    using assms by (auto simp: rerender_def)
  also have "effect_cleanup new = new\<lparr>timers := [], effects := effects new @ [ClearInterval h]\<rparr>"
    using assms by (simp add: effect_cleanup_def clearInterval_def emit_def)
  also have "effect_body \<dots> = \<dots>"
    using assms by (simp add: effect_body_def split: option.splits)
  also have "\<dots> = new\<lparr>effects := effects new @ [ClearInterval h]\<rparr>"
    using assms(5) by (cases new) simp
  finally show ?thesis .
qed

lemma remove_nth_subset: "set (take k xs @ drop (Suc k) xs) \<subseteq> set xs"
  by (auto dest: in_set_takeD in_set_dropD)

lemma quiet_step:
  assumes "polling h j s" and "quiet e"
  shows "polling h j (step e s)
    \<and> effects (step e s) = effects s @ quiet_trace h j s e
    \<and> status (step e s) = status s \<and> progress (step e s) = progress s
    \<and> displayText (step e s) = displayText s \<and> onComplete (step e s) = onComplete s"
proof (cases e)
  case (Tick h')
  show ?thesis
    using assms(1) unfolding Tick
    by (simp add: polling_def quiet_trace_def emit_def)
next
  case (JobSettled k r)
  then have nt: "\<not> terminal r"
    using assms(2) by (simp add: quiet_def)
  show ?thesis
  proof (cases "k < length (inflight s)")
    case False
    then show ?thesis
      using assms(1) unfolding JobSettled by (cases r) (simp_all add: quiet_trace_def)
  next
    case True
    let ?s1 = "s\<lparr>inflight := take k (inflight s) @ drop (Suc k) (inflight s)\<rparr>"
    have oj: "on_job cb r ?s1 = ?s1\<lparr>effects := effects s @ quiet_trace h j s e\<rparr>" for cb
      using nt True unfolding JobSettled
      by (cases r) (simp_all add: on_job_def terminal_def emit_def quiet_trace_def)
    have st: "step e s = ?s1\<lparr>effects := effects s @ quiet_trace h j s e\<rparr>"
      using True unfolding JobSettled
      by (simp add: Let_def oj [unfolded JobSettled] rerender_def)
    have sub: "\<forall>p\<in>set (take k (inflight s) @ drop (Suc k) (inflight s)). snd p = onComplete s"
      using assms(1) remove_nth_subset [of k "inflight s"] by (auto simp: polling_def)
    show ?thesis
      using assms(1) sub by (simp add: st polling_def)
  qed
qed (use assms(2) in \<open>simp_all add: quiet_def\<close>)

lemma quiet_run:
  assumes "polling h j s" and "\<forall>e\<in>set es. quiet e"
  shows "polling h j (run es s)
    \<and> effects (run es s) = effects s @ quiet_traces h j s es
    \<and> status (run es s) = status s \<and> progress (run es s) = progress s
    \<and> displayText (run es s) = displayText s \<and> onComplete (run es s) = onComplete s"
  using assms
proof (induction es arbitrary: s)
  case Nil
  then show ?case by simp
next
  case (Cons e es)
  have q: "quiet e" and qs: "\<forall>e\<in>set es. quiet e"
    using Cons.prems(2) by simp_all
  note one = quiet_step [OF Cons.prems(1) q]
  from one have w: "polling h j (step e s)" by simp
  note rest = Cons.IH [OF w qs]
  show ?case
    using one rest by simp
qed


lemma run_append: "run (xs @ ys) s = run ys (run xs s)"
  by (induction xs arbitrary: s) auto

lemma quiet_traces_counts:
  "completions (quiet_traces h j s es) = 0"
  "failures (quiet_traces h j s es) = 0"
  by (induction es arbitrary: s)
     (auto simp: quiet_trace_def completions_def failures_def split: event.splits settled.splits)

lemma quiet_traces_polls:
  "polls (quiet_traces h j s es) = length (filter (\<lambda>e. e = Tick h) es)"
  by (induction es arbitrary: s)
     (auto simp: quiet_trace_def polls_def split: event.splits settled.splits)

lemma on_job_completed_polling:
  assumes "intervalRef s = Some h" and "timers s = [(h, j, cb')]" and "job_status c = ''completed''"
  shows "on_job cb (Resolved c) s =
     s\<lparr>status := ''Completed'', progress := 100, displayText := done_text c, timers := [],
       effects := effects s @ [SetStatus ''Completed'', SetProgress 100,
             SetDisplayText (done_text c), ClearInterval h]
           @ (case cb of None \<Rightarrow> [] | Some f \<Rightarrow> [OnComplete f])\<rparr>"
  using assms
  by (cases cb) (simp_all add: on_job_def emit_def done_text_def
      setStatus_def setProgress_def setDisplayText_def clearInterval_current_def clearInterval_def
      call_onComplete_def)

lemma on_job_failed_polling:
  assumes "intervalRef s = Some h" and "timers s = [(h, j, cb')]" and "job_status c = ''failed''"
  shows "on_job cb (Resolved c) s =
     s\<lparr>status := ''Failed'', displayText := ''Error: '' @ error_or_unknown (job_error c),
       timers := [],
       effects := effects s @ [SetStatus ''Failed'',
             SetDisplayText (''Error: '' @ error_or_unknown (job_error c)), ClearInterval h]\<rparr>"
  using assms
  by (simp add: on_job_def emit_def
      setStatus_def setDisplayText_def clearInterval_current_def clearInterval_def)

lemma settle_completed:
  assumes "polling h j s" and "k < length (inflight s)" and "job_status c = ''completed''"
  shows "step (JobSettled k (Resolved c)) s =
     s\<lparr>inflight := take k (inflight s) @ drop (Suc k) (inflight s),
       status := ''Completed'', progress := 100, displayText := done_text c, timers := [],
       effects := effects s @ [SetStatus ''Completed'', SetProgress 100,
             SetDisplayText (done_text c), ClearInterval h]
           @ (case onComplete s of None \<Rightarrow> [] | Some f \<Rightarrow> [OnComplete f]) @ [ClearInterval h]\<rparr>"
proof -
  let ?s1 = "s\<lparr>inflight := take k (inflight s) @ drop (Suc k) (inflight s)\<rparr>"
  have cb: "snd (inflight s ! k) = onComplete s"
    using assms(1,2) by (simp add: polling_def)
  have r1: "intervalRef ?s1 = Some h" "timers ?s1 = [(h, j, onComplete s)]"
    using assms(1) by (simp_all add: polling_def)
  note oj = on_job_completed_polling [OF r1 assms(3), of "onComplete s"]
  have "step (JobSettled k (Resolved c)) s = rerender ?s1 (on_job (onComplete s) (Resolved c) ?s1)"
    using assms(2) by (simp add: Let_def cb)
  also have "\<dots> = (on_job (onComplete s) (Resolved c) ?s1)
       \<lparr>effects := effects (on_job (onComplete s) (Resolved c) ?s1) @ [ClearInterval h]\<rparr>"
    using assms(1) by (intro rerender_finished) (simp_all add: oj polling_def)
  finally show ?thesis by (simp add: oj)
qed

lemma settle_failed:
  assumes "polling h j s" and "k < length (inflight s)" and "job_status c = ''failed''"
  shows "step (JobSettled k (Resolved c)) s =
     s\<lparr>inflight := take k (inflight s) @ drop (Suc k) (inflight s),
       status := ''Failed'', displayText := ''Error: '' @ error_or_unknown (job_error c),
       timers := [],
       effects := effects s @ [SetStatus ''Failed'',
             SetDisplayText (''Error: '' @ error_or_unknown (job_error c)),
             ClearInterval h, ClearInterval h]\<rparr>"
proof -
  let ?s1 = "s\<lparr>inflight := take k (inflight s) @ drop (Suc k) (inflight s)\<rparr>"
  have r1: "intervalRef ?s1 = Some h" "timers ?s1 = [(h, j, onComplete s)]"
    using assms(1) by (simp_all add: polling_def)
  note oj = on_job_failed_polling [OF r1 assms(3)]
  have "step (JobSettled k (Resolved c)) s
          = rerender ?s1 (on_job (snd (inflight s ! k)) (Resolved c) ?s1)"
    using assms(2) by (simp add: Let_def)
  also have "\<dots> = (on_job (snd (inflight s ! k)) (Resolved c) ?s1)
       \<lparr>effects := effects (on_job (snd (inflight s ! k)) (Resolved c) ?s1) @ [ClearInterval h]\<rparr>"
    using assms(1) by (intro rerender_finished) (simp_all add: oj polling_def)
  finally show ?thesis by (simp add: oj)
qed

section \<open>Polling: after the job has ended\<close>

lemma on_job_stopped:
  assumes "stopped s"
  shows "stopped (on_job cb r s) \<and> polls (effects (on_job cb r s)) = polls (effects s)"
proof (cases r)
  case (Rejected m)
  then show ?thesis using assms by (simp add: on_job_def emit_def stopped_def polls_def)
next
  case (Resolved c)
  have a: "stopped (s\<lparr>effects := t\<rparr>) = stopped s" for t
    by (simp add: stopped_def)
  show ?thesis
    using assms unfolding Resolved
    by (cases cb)
       (simp_all add: on_job_def stopped_def polls_def emit_def setStatus_def setProgress_def
         setDisplayText_def call_onComplete_def clearInterval_current_def clearInterval_def
         split: option.splits)
qed

lemma rerender_stopped:
  assumes "stopped new"
  shows "stopped (rerender old new) \<and> polls (effects (rerender old new)) = polls (effects new)"
proof (cases "status new = status old \<and> jobId new = jobId old \<and> onComplete new = onComplete old")
  case True
  then show ?thesis using assms by (simp add: rerender_def)
next
  case False
  have c: "stopped (effect_cleanup new) \<and> polls (effects (effect_cleanup new)) = polls (effects new)"
    using assms
    by (simp add: stopped_def effect_cleanup_def clearInterval_def emit_def polls_def
        split: option.splits)
  have b: "effect_body (effect_cleanup new) = effect_cleanup new"
    using c by (simp add: stopped_def effect_body_def split: option.splits)
  have "rerender old new = effect_body (effect_cleanup new)"
    using False by (auto simp: rerender_def)
  then show ?thesis
    using c by (simp add: b)
qed

lemma stopped_step:
  assumes "stopped s" and "poll_event e"
  shows "stopped (step e s) \<and> polls (effects (step e s)) = polls (effects s)"
proof (cases e)
  case (Tick h')
  then show ?thesis using assms(1) by (simp add: stopped_def)
next
  case (JobSettled k r)
  show ?thesis
  proof (cases "k < length (inflight s)")
    case False
    then show ?thesis using assms(1) unfolding JobSettled by simp
  next
    case True
    let ?s1 = "s\<lparr>inflight := take k (inflight s) @ drop (Suc k) (inflight s)\<rparr>"
    have s1: "stopped ?s1" using assms(1) by (simp add: stopped_def)
    have p1: "polls (effects ?s1) = polls (effects s)" by simp
    note a = on_job_stopped [OF s1, of "snd (inflight s ! k)" r]
    note b = rerender_stopped [of "on_job (snd (inflight s ! k)) r ?s1" ?s1]
    have "step e s = rerender ?s1 (on_job (snd (inflight s ! k)) r ?s1)"
      using True unfolding JobSettled by (simp add: Let_def)
    then show ?thesis
      using a b p1 by simp
  qed
qed (use assms(2) in \<open>simp_all add: poll_event_def\<close>)

lemma stopped_run:
  assumes "stopped s" and "\<forall>e\<in>set es. poll_event e"
  shows "stopped (run es s) \<and> polls (effects (run es s)) = polls (effects s)"
  using assms
proof (induction es arbitrary: s)
  case Nil
  then show ?case by simp
next
  case (Cons e es)
  have q: "poll_event e" and qs: "\<forall>e\<in>set es. poll_event e"
    using Cons.prems(2) by simp_all
  note one = stopped_step [OF Cons.prems(1) q]
  from one have w: "stopped (step e s)" by simp
  note rest = Cons.IH [OF w qs]
  show ?case
    using one rest by simp
qed


lemma since_grown: "effects s' = effects s @ t \<Longrightarrow> since s s' = t"
  by (simp add: since_def)

section \<open>Jobs that complete\<close>

text \<open>
  When the answer with status \<open>completed\<close> is the only one that ends the job: let the
  component be polling a job, with an \<open>onComplete\<close> callback, let any quiet events happen
  in any order, and let then some request in flight be answered with \<open>completed\<close>. Then
  since the start \<open>onComplete\<close> was called once, the component shows status \<open>Completed\<close>
  and the message \<open>Done! n logs processed.\<close> with the count of that answer, one request
  was sent per tick of the interval, no interval is left running, and whatever ticks and
  answers follow, no further request is sent.
\<close>

lemma single_completed_answer:
  assumes "polling h j s" and "onComplete s = Some f"
    and "\<forall>e\<in>set es. quiet e"
    and "k < length (inflight (run es s))"
    and "job_status c = ''completed''"
  shows "completions (since s (run (es @ [JobSettled k (Resolved c)]) s)) = 1
    \<and> OnComplete f \<in> set (since s (run (es @ [JobSettled k (Resolved c)]) s))
    \<and> status (run (es @ [JobSettled k (Resolved c)]) s) = ''Completed''
    \<and> displayText (run (es @ [JobSettled k (Resolved c)]) s) =
        ''Done! '' @ show_nat (unat (count_or_zero (processed_count c))) @ '' logs processed.''
    \<and> timers (run (es @ [JobSettled k (Resolved c)]) s) = []
    \<and> polls (since s (run (es @ [JobSettled k (Resolved c)]) s)) = length (filter (\<lambda>e. e = Tick h) es)
    \<and> (\<forall>more. (\<forall>e\<in>set more. poll_event e) \<longrightarrow>
          polls (effects (run ((es @ [JobSettled k (Resolved c)]) @ more) s))
            = polls (effects (run (es @ [JobSettled k (Resolved c)]) s)))"
proof -
  let ?s1 = "run es s"
  let ?s2 = "run (es @ [JobSettled k (Resolved c)]) s"
  note q = quiet_run [OF assms(1) assms(3)]
  from q have w: "polling h j ?s1" and cb: "onComplete ?s1 = Some f"
    using assms(2) by simp_all
  have s2: "?s2 = step (JobSettled k (Resolved c)) ?s1"
    by (simp add: run_append)
  note st = settle_completed [OF w assms(4,5), folded s2, unfolded cb option.case]
  have eff: "effects ?s2 = effects s @ (quiet_traces h j s es @ [SetStatus ''Completed'',
      SetProgress 100, SetDisplayText (done_text c), ClearInterval h, OnComplete f, ClearInterval h])"
    using q by (simp add: st)
  note new = since_grown [OF eff]
  have stop: "stopped ?s2"
    by (simp add: st stopped_def)
  have after: "\<forall>more. (\<forall>e\<in>set more. poll_event e) \<longrightarrow>
          polls (effects (run ((es @ [JobSettled k (Resolved c)]) @ more) s)) = polls (effects ?s2)"
    using stopped_run [OF stop] by (simp only: run_append [of "es @ [JobSettled k (Resolved c)]"]) simp
  have tail: "completions [SetStatus ''Completed'', SetProgress 100, SetDisplayText (done_text c),
      ClearInterval h, OnComplete f, ClearInterval h] = 1"
    "polls [SetStatus ''Completed'', SetProgress 100, SetDisplayText (done_text c),
      ClearInterval h, OnComplete f, ClearInterval h] = 0"
    by (simp_all add: completions_def polls_def)
  have cnt: "completions (since s ?s2) = 1"
    by (simp only: new completions_append quiet_traces_counts tail)
  have pl: "polls (since s ?s2) = length (filter (\<lambda>e. e = Tick h) es)"
    by (simp only: new polls_append quiet_traces_polls tail add_0_right)
  have mem: "OnComplete f \<in> set (since s ?s2)"
    by (simp add: new)
  have shown: "status ?s2 = ''Completed''" "timers ?s2 = []"
    "displayText ?s2 = ''Done! '' @ show_nat (unat (count_or_zero (processed_count c))) @ '' logs processed.''"
    by (simp_all add: st done_text_def)
  show ?thesis
    using cnt mem shown pl after by (simp only: simp_thms)
qed

lemma single_completed_answer_example:
  "polling 1 ''abc123'' started
   \<and> 0 < length (inflight (run overlapping started))
   \<and> completions (since started
        (run (overlapping @ [JobSettled 0 (Resolved (final_answer ''completed''))]) started)) = 1
   \<and> displayText (run (overlapping @ [JobSettled 0 (Resolved (final_answer ''completed''))]) started)
       = ''Done! 42 logs processed.''
   \<and> polls (since started
        (run (overlapping @ [JobSettled 0 (Resolved (final_answer ''completed''))]) started)) = 4
   \<and> polls (effects (run ((overlapping @ [JobSettled 0 (Resolved (final_answer ''completed''))])
                            @ [Tick 1, Tick 2, Tick 1]) started))
       = polls (effects
           (run (overlapping @ [JobSettled 0 (Resolved (final_answer ''completed''))]) started))"
proof -
  have p: "polling 1 ''abc123'' started"
    by code_simp
  have c: "onComplete started = Some 1"
    by code_simp
  have q: "\<forall>e\<in>set overlapping. quiet e"
    by (simp add: overlapping_def quiet_def report_def terminal_def)
  have k: "0 < length (inflight (run overlapping started))"
    by code_simp
  have d: "job_status (final_answer ''completed'') = ''completed''"
    by (simp add: final_answer_def)
  have t: "''Done! '' @ show_nat (unat (count_or_zero (processed_count (final_answer ''completed''))))
             @ '' logs processed.'' = ''Done! 42 logs processed.''"
    by code_simp
  have n: "length (filter (\<lambda>e. e = Tick 1) overlapping) = 4"
    by (simp add: overlapping_def)
  have m: "\<forall>e\<in>set [Tick 1, Tick 2, Tick 1]. poll_event e"
    by (simp add: poll_event_def)
  note r = single_completed_answer [OF p c q k d, unfolded t n]
  show ?thesis
    using p k r m by blast
qed

text \<open>
  C1. In the run \<open>two_in_flight\<close> two requests for the job are unanswered. The first
  answer with status \<open>completed\<close> calls \<open>onComplete\<close> and clears the interval, so no
  further request is sent. The second answer with status \<open>completed\<close> runs the same
  continuation, which nothing guards: it sets the status, the progress and the message
  again, clears the interval again and calls \<open>onComplete\<close> a second time.
\<close>

theorem completed_twice:
  "inflight two_in_flight = [(''abc123'', Some 1), (''abc123'', Some 1)]
   \<and> timers two_in_flight = [(1, ''abc123'', Some 1)]
   \<and> completions (since two_in_flight
         (run [JobSettled 0 (Resolved (final_answer ''completed''))] two_in_flight)) = 1
   \<and> timers (run [JobSettled 0 (Resolved (final_answer ''completed''))] two_in_flight) = []
   \<and> since (run [JobSettled 0 (Resolved (final_answer ''completed''))] two_in_flight)
         (run [JobSettled 0 (Resolved (final_answer ''completed'')),
               JobSettled 0 (Resolved (final_answer ''completed''))] two_in_flight)
       = [SetStatus ''Completed'', SetProgress 100, SetDisplayText ''Done! 42 logs processed.'',
          ClearInterval 1, OnComplete 1]
   \<and> completions (since two_in_flight
         (run [JobSettled 0 (Resolved (final_answer ''completed'')),
               JobSettled 0 (Resolved (final_answer ''completed''))] two_in_flight)) = 2"
  by code_simp

section \<open>Jobs that fail\<close>

lemma suffix_error_text: "suffix e (''Error: '' @ error_or_unknown (Some e))"
  by (cases "e = []") (simp_all add: error_or_unknown_def suffix_def)

text \<open>
  When the answer with status \<open>failed\<close> is the only one that ends the job: let the
  component be polling a job, let any quiet events happen in any order, and let then some
  request in flight be answered with \<open>failed\<close>. Then since the start the failure was
  announced once (one \<open>setStatus("Failed")\<close>), \<open>onComplete\<close> was not called, the message
  shown is \<open>Error: \<close> followed by the error text of the backend (\<open>Unknown error\<close> when
  it is absent or empty), so it ends with the reported text, no interval is left running,
  and whatever ticks and answers follow, no further request is sent.
\<close>

lemma single_failed_answer:
  assumes "polling h j s"
    and "\<forall>e\<in>set es. quiet e"
    and "k < length (inflight (run es s))"
    and "job_status c = ''failed''"
  shows "failures (since s (run (es @ [JobSettled k (Resolved c)]) s)) = 1
    \<and> completions (since s (run (es @ [JobSettled k (Resolved c)]) s)) = 0
    \<and> status (run (es @ [JobSettled k (Resolved c)]) s) = ''Failed''
    \<and> displayText (run (es @ [JobSettled k (Resolved c)]) s)
        = ''Error: '' @ error_or_unknown (job_error c)
    \<and> (\<forall>m. job_error c = Some m \<longrightarrow>
          suffix m (displayText (run (es @ [JobSettled k (Resolved c)]) s)))
    \<and> timers (run (es @ [JobSettled k (Resolved c)]) s) = []
    \<and> polls (since s (run (es @ [JobSettled k (Resolved c)]) s)) = length (filter (\<lambda>e. e = Tick h) es)
    \<and> (\<forall>more. (\<forall>e\<in>set more. poll_event e) \<longrightarrow>
          polls (effects (run ((es @ [JobSettled k (Resolved c)]) @ more) s))
            = polls (effects (run (es @ [JobSettled k (Resolved c)]) s)))"
proof -
  let ?s1 = "run es s"
  let ?s2 = "run (es @ [JobSettled k (Resolved c)]) s"
  note q = quiet_run [OF assms(1) assms(2)]
  from q have w: "polling h j ?s1"
    by simp
  have s2: "?s2 = step (JobSettled k (Resolved c)) ?s1"
    by (simp add: run_append)
  note st = settle_failed [OF w assms(3,4), folded s2]
  have eff: "effects ?s2 = effects s @ (quiet_traces h j s es @ [SetStatus ''Failed'',
      SetDisplayText (''Error: '' @ error_or_unknown (job_error c)), ClearInterval h, ClearInterval h])"
    using q by (simp add: st)
  note new = since_grown [OF eff]
  have stop: "stopped ?s2"
    by (simp add: st stopped_def)
  have after: "\<forall>more. (\<forall>e\<in>set more. poll_event e) \<longrightarrow>
          polls (effects (run ((es @ [JobSettled k (Resolved c)]) @ more) s)) = polls (effects ?s2)"
    using stopped_run [OF stop] by (simp only: run_append [of "es @ [JobSettled k (Resolved c)]"]) simp
  have tail: "failures [SetStatus ''Failed'',
      SetDisplayText (''Error: '' @ error_or_unknown (job_error c)), ClearInterval h, ClearInterval h] = 1"
    "completions [SetStatus ''Failed'',
      SetDisplayText (''Error: '' @ error_or_unknown (job_error c)), ClearInterval h, ClearInterval h] = 0"
    "polls [SetStatus ''Failed'',
      SetDisplayText (''Error: '' @ error_or_unknown (job_error c)), ClearInterval h, ClearInterval h] = 0"
    by (simp_all add: failures_def completions_def polls_def)
  have cnt: "failures (since s ?s2) = 1" "completions (since s ?s2) = 0"
    by (simp_all only: new failures_append completions_append quiet_traces_counts tail)
  have pl: "polls (since s ?s2) = length (filter (\<lambda>e. e = Tick h) es)"
    by (simp only: new polls_append quiet_traces_polls tail add_0_right)
  have shown: "status ?s2 = ''Failed''" "timers ?s2 = []"
    "displayText ?s2 = ''Error: '' @ error_or_unknown (job_error c)"
    by (simp_all add: st)
  have suf: "\<forall>m. job_error c = Some m \<longrightarrow> suffix m (displayText ?s2)"
    using suffix_error_text by (simp add: shown)
  show ?thesis
    using cnt shown suf pl after by (simp only: simp_thms)
qed


lemma single_failed_answer_example:
  "polling 1 ''abc123'' started
   \<and> 0 < length (inflight (run overlapping started))
   \<and> failures (since started
        (run (overlapping @ [JobSettled 0 (Resolved (final_answer ''failed''))]) started)) = 1
   \<and> displayText (run (overlapping @ [JobSettled 0 (Resolved (final_answer ''failed''))]) started)
       = ''Error: bad format''
   \<and> suffix ''bad format''
        (displayText (run (overlapping @ [JobSettled 0 (Resolved (final_answer ''failed''))]) started))
   \<and> polls (effects (run ((overlapping @ [JobSettled 0 (Resolved (final_answer ''failed''))])
                            @ [Tick 1, Tick 2, Tick 1]) started))
       = polls (effects
           (run (overlapping @ [JobSettled 0 (Resolved (final_answer ''failed''))]) started))"
proof -
  have p: "polling 1 ''abc123'' started"
    by code_simp
  have q: "\<forall>e\<in>set overlapping. quiet e"
    by (simp add: overlapping_def quiet_def report_def terminal_def)
  have k: "0 < length (inflight (run overlapping started))"
    by code_simp
  have d: "job_status (final_answer ''failed'') = ''failed''"
    by (simp add: final_answer_def)
  have e: "job_error (final_answer ''failed'') = Some ''bad format''"
    by (simp add: final_answer_def)
  have t: "''Error: '' @ error_or_unknown (job_error (final_answer ''failed'')) = ''Error: bad format''"
    by code_simp
  have m: "\<forall>e\<in>set [Tick 1, Tick 2, Tick 1]. poll_event e"
    by (simp add: poll_event_def)
  note r = single_failed_answer [OF p q k d]
  show ?thesis
    using p k r e m t by (metis (no_types, lifting))
qed


section \<open>Transport errors while polling\<close>

text \<open>
  C6. While the component is polling, the failure of a request in flight changes nothing
  but the trace, which gains the console message, and the list of requests in flight:
  status, progress, displayed text and the running interval are as before, the component
  is still polling, and the next tick of the interval sends the next request. The same
  holds after any number of quiet events, failures among them: nothing counts them, and
  every tick of the interval still sends a request.
\<close>

theorem transport_error_keeps_polling:
  assumes "polling h j s" and "k < length (inflight s)"
  shows "step (JobSettled k (Rejected m)) s
           = s\<lparr>inflight := take k (inflight s) @ drop (Suc k) (inflight s),
               effects := effects s @ [ConsoleError m]\<rparr>
    \<and> status (step (JobSettled k (Rejected m)) s) = status s
    \<and> progress (step (JobSettled k (Rejected m)) s) = progress s
    \<and> displayText (step (JobSettled k (Rejected m)) s) = displayText s
    \<and> timers (step (JobSettled k (Rejected m)) s) = timers s
    \<and> polling h j (step (JobSettled k (Rejected m)) s)
    \<and> effects (step (Tick h) (step (JobSettled k (Rejected m)) s))
         = effects s @ [ConsoleError m, GetJob j]
    \<and> (\<forall>es. (\<forall>e\<in>set es. quiet e) \<longrightarrow>
          polling h j (run es s) \<and> status (run es s) = status s
          \<and> progress (run es s) = progress s \<and> displayText (run es s) = displayText s
          \<and> polls (since s (run es s)) = length (filter (\<lambda>e. e = Tick h) es))"
proof -
  let ?s1 = "step (JobSettled k (Rejected m)) s"
  have st: "?s1 = s\<lparr>inflight := take k (inflight s) @ drop (Suc k) (inflight s),
               effects := effects s @ [ConsoleError m]\<rparr>"
    using assms(2) by (simp add: Let_def on_job_def emit_def rerender_def)
  have q: "quiet (JobSettled k (Rejected m))"
    by (simp add: quiet_def terminal_def)
  note one = quiet_step [OF assms(1) q]
  from one have p1: "polling h j ?s1"
    by simp
  have tm: "timers ?s1 = timers s"
    unfolding st by simp
  have next_tick: "effects (step (Tick h) ?s1) = effects s @ [ConsoleError m, GetJob j]"
    unfolding st using assms(1) by (simp add: polling_def emit_def)
  have many: "\<forall>es. (\<forall>e\<in>set es. quiet e) \<longrightarrow>
          polling h j (run es s) \<and> status (run es s) = status s
          \<and> progress (run es s) = progress s \<and> displayText (run es s) = displayText s
          \<and> polls (since s (run es s)) = length (filter (\<lambda>e. e = Tick h) es)"
  proof (intro allI impI)
    fix es
    assume a: "\<forall>e\<in>set es. quiet e"
    note r = quiet_run [OF assms(1) a]
    from r have "effects (run es s) = effects s @ quiet_traces h j s es"
      by simp
    then have "since s (run es s) = quiet_traces h j s es"
      by (rule since_grown)
    then show "polling h j (run es s) \<and> status (run es s) = status s
          \<and> progress (run es s) = progress s \<and> displayText (run es s) = displayText s
          \<and> polls (since s (run es s)) = length (filter (\<lambda>e. e = Tick h) es)"
      using r by (simp add: quiet_traces_polls)
  qed
  show ?thesis
    using st one p1 tm next_tick many by (simp only: simp_thms)
qed

theorem transport_error_keeps_polling_witness:
  "polling 1 ''abc123'' two_in_flight \<and> 1 < length (inflight two_in_flight)
   \<and> status (step (JobSettled 1 (Rejected ''Network Error'')) two_in_flight) = ''Processing''
   \<and> displayText (step (JobSettled 1 (Rejected ''Network Error'')) two_in_flight)
       = ''Processing...''
   \<and> polling 1 ''abc123'' (step (JobSettled 1 (Rejected ''Network Error'')) two_in_flight)
   \<and> polling 1 ''abc123'' (run overlapping two_in_flight)
   \<and> polls (since two_in_flight (run overlapping two_in_flight)) = 4"
proof -
  have p: "polling 1 ''abc123'' two_in_flight"
    by code_simp
  have k: "1 < length (inflight two_in_flight)"
    by code_simp
  have s: "status two_in_flight = ''Processing''" "displayText two_in_flight = ''Processing...''"
    by code_simp+
  have q: "\<forall>e\<in>set overlapping. quiet e"
    by (simp add: overlapping_def quiet_def report_def terminal_def)
  have n: "length (filter (\<lambda>e. e = Tick 1) overlapping) = 4"
    by (simp add: overlapping_def)
  note r = transport_error_keeps_polling [OF p k, of "''Network Error''", unfolded s]
  show ?thesis
    using p k r q n by (metis (no_types, lifting))
qed

section \<open>A new upload while a job is being polled\<close>

text \<open>
  C7. In the run \<open>superseded\<close> the interval of \<open>job-a\<close> has been cancelled (only the
  interval of \<open>job-b\<close> runs, and a tick of the old handle does nothing), but the request of
  \<open>job-a\<close> that was in flight still has its continuation. When it is answered with
  \<open>completed\<close>, the component, which is polling \<open>job-b\<close>, shows \<open>Completed\<close> with the
  count of \<open>job-a\<close>, calls \<open>onComplete\<close>, and cancels the interval of \<open>job-b\<close>.
\<close>

theorem stale_answer_after_supersession:
  "timers superseded = [(2, ''job-b'', Some 1)]
   \<and> inflight superseded = [(''job-a'', Some 1)]
   \<and> step (Tick 1) superseded = superseded
   \<and> status superseded = ''Processing'' \<and> jobId superseded = Some ''job-b''
   \<and> status (step (JobSettled 0 (report ''completed'' (Some 5) None)) superseded) = ''Completed''
   \<and> displayText (step (JobSettled 0 (report ''completed'' (Some 5) None)) superseded) = ''Done! 5 logs processed.''
   \<and> timers (step (JobSettled 0 (report ''completed'' (Some 5) None)) superseded) = []
   \<and> jobId (step (JobSettled 0 (report ''completed'' (Some 5) None)) superseded) = Some ''job-b''
   \<and> completions (since superseded (step (JobSettled 0 (report ''completed'' (Some 5) None)) superseded)) = 1"
  by code_simp

section \<open>Tokens of a stream\<close>

lemma join_empty: "join [] xs = concat xs"
  by (induction "[]::string" xs rule: join.induct) simp_all

lemma onToken_state:
  "k < length (tokenBuffer s) \<Longrightarrow>
   onToken k t s = s\<lparr>tokenBuffer := (tokenBuffer s)[k := tokenBuffer s ! k @ [t]],
                    response := concat (tokenBuffer s ! k @ [t]),
                    ask_effects := ask_effects s @ [SetResponse (concat (tokenBuffer s ! k @ [t]))]\<rparr>"
  by (simp add: onToken_def Let_def setResponse_def ask_emit_def join_empty)

lemma tokens_state:
  "k < length (tokenBuffer s) \<Longrightarrow>
   ask_run (map (Token k) ts) s =
     s\<lparr>tokenBuffer := (tokenBuffer s)[k := tokenBuffer s ! k @ ts],
       response := (if ts = [] then response s else concat (tokenBuffer s ! k @ ts)),
       ask_effects := ask_effects s @ map SetResponse (partials (tokenBuffer s ! k) ts)\<rparr>"
proof (induction ts arbitrary: s)
  case Nil
  then show ?case by simp
next
  case (Cons t ts)
  let ?s1 = "onToken k t s"
  have k1: "k < length (tokenBuffer ?s1)"
    using Cons.prems by (simp add: onToken_state)
  have "ask_run (map (Token k) (t # ts)) s = ask_run (map (Token k) ts) ?s1"
    using Cons.prems by simp
  also note Cons.IH [OF k1]
  finally show ?case
    using Cons.prems by (simp add: onToken_state)
qed

lemma partials_take:
  "partials b ts = map (\<lambda>n. concat (b @ take n ts)) [1..<Suc (length ts)]"
proof (induction ts arbitrary: b)
  case Nil
  then show ?case by simp
next
  case (Cons t ts)
  have "[1..<Suc (length (t # ts))] = 1 # map Suc [1..<Suc (length ts)]"
    by (simp add: upt_conv_Cons map_Suc_upt del: upt_Suc)
  then show ?case
    by (simp add: Cons.IH comp_def del: upt_Suc)
qed

text \<open>
  C2. For a stream that was started, whatever its buffer holds already: the tokens that
  arrive are appended to the buffer in the order of arrival, each token causes exactly one
  \<open>setResponse\<close>, the \<open>n\<close>-th with the concatenation of the buffer's earlier content and
  the first \<open>n\<close> tokens, the response shown after the last one is the concatenation of
  everything received, and \<open>isStreaming\<close> is untouched. For the tokens \<open>Analy\<close>,
  \<open>zing \<close>, \<open>payment-svc\<close> of a fresh stream the text shown is \<open>Analyzing payment-svc\<close>.
\<close>

theorem tokens_accumulate:
  assumes "k < length (tokenBuffer s)"
  shows "tokenBuffer (ask_run (map (Token k) ts) s) ! k = tokenBuffer s ! k @ ts
    \<and> ask_effects (ask_run (map (Token k) ts) s) =
        ask_effects s @ map (\<lambda>n. SetResponse (concat (tokenBuffer s ! k @ take n ts)))
                            [1..<Suc (length ts)]
    \<and> (ts \<noteq> [] \<longrightarrow> response (ask_run (map (Token k) ts) s) = concat (tokenBuffer s ! k @ ts))
    \<and> isStreaming (ask_run (map (Token k) ts) s) = isStreaming s"
  using assms by (simp add: tokens_state partials_take comp_def del: upt_Suc)

theorem tokens_accumulate_witness:
  "0 < length (tokenBuffer asked) \<and> isStreaming asked
   \<and> isStreaming (ask_run (map (Token 0) [''Analy'', ''zing '', ''payment-svc'']) asked)
   \<and> tokenBuffer (ask_run (map (Token 0) [''Analy'', ''zing '', ''payment-svc'']) asked) ! 0
       = [''Analy'', ''zing '', ''payment-svc'']
   \<and> response (ask_run (map (Token 0) [''Analy'', ''zing '', ''payment-svc'']) asked)
       = ''Analyzing payment-svc''
   \<and> ask_effects (ask_run (map (Token 0) [''Analy'', ''zing '', ''payment-svc'']) asked)
       = ask_effects asked
         @ [SetResponse ''Analy'', SetResponse ''Analyzing '', SetResponse ''Analyzing payment-svc'']"
proof -
  have k: "0 < length (tokenBuffer asked)"
    by code_simp
  have b: "tokenBuffer asked ! 0 = []"
    by code_simp
  have st: "isStreaming asked"
    by code_simp
  have u: "[1..<Suc (length [''Analy'', ''zing '', ''payment-svc''])] = [1, 2, 3]"
    by code_simp
  note r = tokens_accumulate [OF k, of "[''Analy'', ''zing '', ''payment-svc'']", unfolded b u]
  show ?thesis
    using k st r by simp
qed

section \<open>The final result of a stream\<close>

lemma onResult_state:
  "r \<noteq> JNull \<Longrightarrow>
   onResult r s = s\<lparr>isStreaming := False, response := result_text r,
                    ask_effects := ask_effects s @ [SetIsStreaming False, SetResponse (result_text r)]\<rparr>"
  by (simp add: onResult_def Let_def setIsStreaming_def setResponse_def ask_emit_def)

lemma result_text_cases:
  "result_text (JStr t) = t"
  "\<not> has_error (JObj kvs) \<Longrightarrow> result_text (JObj kvs) = stringify 0 (JObj kvs)"
  "map_of kvs ''error'' = Some e \<Longrightarrow> truthy e \<Longrightarrow> result_text (JObj kvs) = ''Error: '' @ to_string e"
  "result_text (JArr xs) = stringify 0 (JArr xs)"
  by (simp_all add: result_text_def error_of_def has_error_def split: option.splits)

text \<open>
  C3, as the code has it. When the final callback of a started stream runs after any
  tokens: a text result is shown as it is (so a payload that is not JSON, like
  \<open>plain summary\<close>, is shown and is no error); an object or array without a truthy
  \<open>error\<close> property is shown as \<open>JSON.stringify(result, null, 2)\<close>; an object with a
  truthy \<open>error\<close> is shown as \<open>Error: \<close> followed by it. For every result but \<open>null\<close>, streaming ends and the
  last value shown is that one: it replaces the accumulated token text, which stays in the
  stream's buffer only.
\<close>

theorem final_result_shown:
  assumes "k < length (tokenBuffer s)"
  shows "(r = JStr t \<longrightarrow>
            response (ask_step (Final k r) (ask_run (map (Token k) ts) s)) = t)
    \<and> ((r = JObj kvs \<or> r = JArr xs) \<and> \<not> has_error r \<longrightarrow>
            response (ask_step (Final k r) (ask_run (map (Token k) ts) s)) = stringify 0 r)
    \<and> (r = JObj kvs \<and> map_of kvs ''error'' = Some e \<and> truthy e \<longrightarrow>
            response (ask_step (Final k r) (ask_run (map (Token k) ts) s)) = ''Error: '' @ to_string e)
    \<and> (r \<noteq> JNull \<longrightarrow>
            \<not> isStreaming (ask_step (Final k r) (ask_run (map (Token k) ts) s))
          \<and> last (ask_effects (ask_step (Final k r) (ask_run (map (Token k) ts) s)))
              = SetResponse (response (ask_step (Final k r) (ask_run (map (Token k) ts) s))))
    \<and> tokenBuffer (ask_step (Final k r) (ask_run (map (Token k) ts) s)) ! k = tokenBuffer s ! k @ ts"
proof -
  let ?s1 = "ask_run (map (Token k) ts) s"
  have k1: "k < length (tokenBuffer ?s1)"
    using assms by (simp add: tokens_state)
  have b1: "tokenBuffer ?s1 ! k = tokenBuffer s ! k @ ts"
    using assms by (simp add: tokens_state)
  have f: "ask_step (Final k r) ?s1 = onResult r ?s1"
    using k1 by simp
  have buf: "tokenBuffer (onResult r ?s1) = tokenBuffer ?s1"
    by (simp add: onResult_def Let_def setIsStreaming_def setResponse_def ask_emit_def)
  have shown: "r \<noteq> JNull \<Longrightarrow> response (onResult r ?s1) = result_text r"
    by (simp add: onResult_state)
  show ?thesis
    unfolding f
    using b1 by (auto simp: buf onResult_state result_text_cases)
qed

theorem final_result_shown_witness:
  "0 < length (tokenBuffer asked)
   \<and> response (ask_step (Final 0 (JStr ''plain summary''))
        (ask_run (map (Token 0) [''Analy'', ''zing '', ''payment-svc'']) asked)) = ''plain summary''
   \<and> \<not> isStreaming (ask_step (Final 0 (JStr ''plain summary''))
        (ask_run (map (Token 0) [''Analy'', ''zing '', ''payment-svc'']) asked))
   \<and> response (ask_step (Final 0 (JObj [(''cause'', JStr ''DB timeout''), (''confidence'', JStr ''HIGH'')]))
        (ask_run (map (Token 0) [''Analy'', ''zing '', ''payment-svc'']) asked))
      = ''{'' @ newline @ ''  '' @ quote ''cause'' @ '': '' @ quote ''DB timeout'' @ '','' @ newline
          @ ''  '' @ quote ''confidence'' @ '': '' @ quote ''HIGH'' @ newline @ ''}''
   \<and> response (ask_step (Final 0 (JObj [(''error'', JStr ''model offline'')]))
        (ask_run (map (Token 0) [''Analy'', ''zing '', ''payment-svc'']) asked))
      = ''Error: model offline''"
proof -
  have k: "0 < length (tokenBuffer asked)"
    by code_simp
  have js: "stringify 0 (JObj [(''cause'', JStr ''DB timeout''), (''confidence'', JStr ''HIGH'')])
      = ''{'' @ newline @ ''  '' @ quote ''cause'' @ '': '' @ quote ''DB timeout'' @ '','' @ newline
          @ ''  '' @ quote ''confidence'' @ '': '' @ quote ''HIGH'' @ newline @ ''}''"
    by code_simp
  have a: "response (ask_step (Final 0 (JStr ''plain summary''))
        (ask_run (map (Token 0) [''Analy'', ''zing '', ''payment-svc'']) asked)) = ''plain summary''
     \<and> \<not> isStreaming (ask_step (Final 0 (JStr ''plain summary''))
        (ask_run (map (Token 0) [''Analy'', ''zing '', ''payment-svc'']) asked))"
    using final_result_shown [OF k, where r = "JStr ''plain summary''"
        and t = "''plain summary''" and ts = "[''Analy'', ''zing '', ''payment-svc'']"]
    by simp
  have b: "response (ask_step (Final 0 (JObj [(''cause'', JStr ''DB timeout''), (''confidence'', JStr ''HIGH'')]))
        (ask_run (map (Token 0) [''Analy'', ''zing '', ''payment-svc'']) asked))
      = stringify 0 (JObj [(''cause'', JStr ''DB timeout''), (''confidence'', JStr ''HIGH'')])"
    using final_result_shown [OF k,
        where r = "JObj [(''cause'', JStr ''DB timeout''), (''confidence'', JStr ''HIGH'')]"
        and kvs = "[(''cause'', JStr ''DB timeout''), (''confidence'', JStr ''HIGH'')]"
        and ts = "[''Analy'', ''zing '', ''payment-svc'']"]
    by (simp add: has_error_def error_of_def)
  have c: "response (ask_step (Final 0 (JObj [(''error'', JStr ''model offline'')]))
        (ask_run (map (Token 0) [''Analy'', ''zing '', ''payment-svc'']) asked))
      = ''Error: model offline''"
    using final_result_shown [OF k,
        where r = "JObj [(''error'', JStr ''model offline'')]"
        and kvs = "[(''error'', JStr ''model offline'')]" and e = "JStr ''model offline''"
        and ts = "[''Analy'', ''zing '', ''payment-svc'']"]
    by simp
  show ?thesis
    using k a b c by (simp only: js simp_thms)
qed

text \<open>
  C3 as stated fails: after the tokens \<open>Analy\<close>, \<open>zing\<close> and the final text
  \<open>plain summary\<close>, the text shown is \<open>plain summary\<close>, not the accumulated
  \<open>Analyzing\<close>.
\<close>

theorem final_text_replaces_tokens:
  "response (ask_run [Typed ''why?'', Ask, Token 0 ''Analy'', Token 0 ''zing'',
                      Final 0 (JStr ''plain summary'')] ask_initial) = ''plain summary''
   \<and> join [] (tokenBuffer (ask_run [Typed ''why?'', Ask, Token 0 ''Analy'', Token 0 ''zing'',
                      Final 0 (JStr ''plain summary'')] ask_initial) ! 0) = ''Analyzing''
   \<and> response (ask_run [Typed ''why?'', Ask, Token 0 ''Analy'', Token 0 ''zing'',
                      Final 0 (JStr ''plain summary'')] ask_initial)
       \<noteq> join [] (tokenBuffer (ask_run [Typed ''why?'', Ask, Token 0 ''Analy'', Token 0 ''zing'',
                      Final 0 (JStr ''plain summary'')] ask_initial) ! 0)"
  by code_simp

section \<open>Clearing while a stream runs\<close>

text \<open>
  C8, as the code has it. The component has no cancel; \<open>handleClear\<close> empties the query
  and the response and leaves \<open>isStreaming\<close> and every buffer as they are. The callbacks
  of a started stream are not switched off: a token that arrives after the clear shows the
  concatenation of all tokens of the stream, those from before the clear included; a final
  result that arrives after the clear is shown as usual; and a token that arrives after the
  final result shows the concatenated tokens again.
\<close>

theorem clear_keeps_stream:
  assumes "k < length (tokenBuffer s)"
  shows "query (ask_step Clear s) = [] \<and> response (ask_step Clear s) = []
    \<and> isStreaming (ask_step Clear s) = isStreaming s
    \<and> tokenBuffer (ask_step Clear s) = tokenBuffer s
    \<and> response (ask_step (Token k t) (ask_step Clear s)) = concat (tokenBuffer s ! k @ [t])
    \<and> (r \<noteq> JNull \<longrightarrow> response (ask_step (Final k r) (ask_step Clear s)) = result_text r)
    \<and> (r \<noteq> JNull \<longrightarrow> response (ask_step (Token k t) (ask_step (Final k r) s))
                        = concat (tokenBuffer s ! k @ [t]))"
proof -
  have c: "handleClear s = s\<lparr>query := [], response := [],
             ask_effects := ask_effects s @ [SetQuery [], SetResponse []]\<rparr>"
    by (simp add: handleClear_def setQuery_def setResponse_def ask_emit_def)
  have f: "r \<noteq> JNull \<Longrightarrow> ask_step (Final k r) s = s\<lparr>isStreaming := False, response := result_text r,
                    ask_effects := ask_effects s @ [SetIsStreaming False, SetResponse (result_text r)]\<rparr>"
    using assms by (simp add: onResult_state)
  show ?thesis
    using assms by (simp add: c f onToken_state onResult_state)
qed

theorem clear_keeps_stream_witness:
  "0 < length (tokenBuffer one_token) \<and> isStreaming (ask_step Clear one_token)
   \<and> response (ask_step Clear one_token) = []
   \<and> response (ask_step (Token 0 ''zing'') (ask_step Clear one_token)) = ''Analyzing''
   \<and> response (ask_step (Final 0 (JStr ''done'')) (ask_step Clear one_token)) = ''done''
   \<and> response (ask_step (Token 0 ''zing'') (ask_step (Final 0 (JStr ''done'')) one_token))
       = ''Analyzing''"
proof -
  have k: "0 < length (tokenBuffer one_token)"
    by code_simp
  have b: "concat (tokenBuffer one_token ! 0 @ [''zing'']) = ''Analyzing''"
    by code_simp
  have st: "isStreaming one_token"
    by code_simp
  have d: "result_text (JStr ''done'') = ''done''" "JStr ''done'' \<noteq> JNull"
    by (simp_all add: result_text_def error_of_def)
  note r = clear_keeps_stream [OF k, of "''zing''" "JStr ''done''", unfolded b d(1)]
  show ?thesis
    using k st r d(2) by blast
qed

text \<open>
  C8 as stated fails: a token after the clear brings the cleared text back while
  \<open>isStreaming\<close> is still set, and a token after the final result replaces the result.
\<close>

theorem clear_does_not_cancel:
  "response (ask_run [Typed ''why?'', Ask, Token 0 ''Analy'', Clear] ask_initial) = []
   \<and> isStreaming (ask_run [Typed ''why?'', Ask, Token 0 ''Analy'', Clear] ask_initial)
   \<and> response (ask_run [Typed ''why?'', Ask, Token 0 ''Analy'', Clear, Token 0 ''zing''] ask_initial)
       = ''Analyzing''
   \<and> response (ask_run [Typed ''why?'', Ask, Token 0 ''Analy'', Final 0 (JStr ''done'')] ask_initial) = ''done''
   \<and> response (ask_run [Typed ''why?'', Ask, Token 0 ''Analy'', Final 0 (JStr ''done''),
                         Token 0 ''zing''] ask_initial) = ''Analyzing''"
  by code_simp


section \<open>Objects and log requests\<close>

lemma map_of_assign: "map_of (assign k v ps) k' = (if k' = k then Some v else map_of ps k')"
  by (induction ps) auto

lemma map_of_spread_one: "map_of (spread base [(k, v)]) k' = (if k' = k then Some v else map_of base k')"
  by (simp add: map_of_assign)

lemma keys_assign: "fst ` set (assign k v ps) = insert k (fst ` set ps)"
  by (induction ps) auto

lemma distinct_assign: "distinct (map fst ps) \<Longrightarrow> distinct (map fst (assign k v ps))"
  by (induction ps) (auto simp: keys_assign)

lemma map_of_spread:
  "distinct (map fst ext) \<Longrightarrow>
   map_of (spread base ext) k = (case map_of ext k of Some x \<Rightarrow> Some x | None \<Rightarrow> map_of base k)"
proof (induction ext arbitrary: base)
  case Nil
  then show ?case by simp
next
  case (Cons p ps)
  then have "k = fst p \<Longrightarrow> map_of ps k = None"
    by (auto simp: map_of_eq_None_iff)
  with Cons show ?case
    by (cases p) (auto simp: map_of_assign split: option.splits)
qed

lemma fetchLogs_state:
  "fetchLogs n f s = s\<lparr>pending_logs := pending_logs s @ [n],
      app_effects := app_effects s @ [GetLogs (spread [(''page'', Num (of_int n))] f)]\<rparr>"
  by (simp add: fetchLogs_def app_emit_def)

lemma logs_settled_last:
  "app_step (LogsSettled (length (pending_logs s)) r) (fetchLogs n f s)
     = on_logs n r (s\<lparr>app_effects := app_effects s @ [GetLogs (spread [(''page'', Num (of_int n))] f)]\<rparr>)"
proof -
  have "s\<lparr>pending_logs := pending_logs s\<rparr> = s" by simp
  then show ?thesis
    by (simp add: fetchLogs_state)
qed

text \<open>
  C10. When a \<open>getLogs\<close> request is rejected, the continuation of \<open>fetchLogs\<close> leaves the
  log list, the total, the page, the page count and the filters as they were; a whole
  \<open>fetchLogs\<close> whose request is rejected changes nothing in the state but the trace, which
  gains the request and the console message.
\<close>

theorem fetch_failure_keeps_state:
  "logs (app_step (LogsSettled k (Rejected e)) s) = logs s
   \<and> total (app_step (LogsSettled k (Rejected e)) s) = total s
   \<and> page (app_step (LogsSettled k (Rejected e)) s) = page s
   \<and> pages (app_step (LogsSettled k (Rejected e)) s) = pages s
   \<and> filters (app_step (LogsSettled k (Rejected e)) s) = filters s
   \<and> app_step (LogsSettled (length (pending_logs s)) (Rejected e)) (fetchLogs n f s)
       = s\<lparr>app_effects := app_effects s @ [GetLogs (spread [(''page'', Num (of_int n))] f),
                                            AppConsoleError e]\<rparr>"
proof -
  have whole: "app_step (LogsSettled (length (pending_logs s)) (Rejected e)) (fetchLogs n f s)
       = s\<lparr>app_effects := app_effects s @ [GetLogs (spread [(''page'', Num (of_int n))] f),
                                            AppConsoleError e]\<rparr>"
    by (simp only: logs_settled_last) (simp add: on_logs_def app_emit_def)
  have kept: "logs (app_step (LogsSettled k (Rejected e)) s) = logs s
   \<and> total (app_step (LogsSettled k (Rejected e)) s) = total s
   \<and> page (app_step (LogsSettled k (Rejected e)) s) = page s
   \<and> pages (app_step (LogsSettled k (Rejected e)) s) = pages s
   \<and> filters (app_step (LogsSettled k (Rejected e)) s) = filters s"
    by (simp add: on_logs_def app_emit_def)
  show ?thesis
    using whole kept by (simp only: simp_thms)
qed

section \<open>Changing a filter\<close>

lemma applyFilter_state:
  "applyFilter name v (t, s) =
     (t\<lparr>lt_filters := assign name v (lt_filters t)\<rparr>,
      fetchLogs 1 (assign name v (lt_filters t)) (s\<lparr>filters := assign name v (lt_filters t)\<rparr>))"
  by (simp add: applyFilter_def lt_handleFilterChange_def handleFilterChange_def Let_def)

text \<open>
  C4, as the code has it. A change of one field in the table sends exactly one \<open>getLogs\<close>
  request. The request, the table's filters and the filters of \<open>App\<close> all hold the changed
  field with its new value and every other field of the table with its old value; the
  request asks for page 1. The displayed page is not changed by the handler itself: it
  becomes 1 when the request is answered, and stays as it was when the request is rejected.
\<close>

theorem applyFilter_fetch:
  assumes "distinct (map fst (lt_filters t))"
  shows "app_effects (snd (applyFilter name v (t, s)))
           = app_effects s @ [GetLogs (spread [(''page'', Num 1)] (assign name v (lt_filters t)))]
    \<and> fetches (drop (length (app_effects s)) (app_effects (snd (applyFilter name v (t, s))))) = 1
    \<and> filters (snd (applyFilter name v (t, s))) = assign name v (lt_filters t)
    \<and> lt_filters (fst (applyFilter name v (t, s))) = assign name v (lt_filters t)
    \<and> map_of (spread [(''page'', Num 1)] (assign name v (lt_filters t))) name = Some v
    \<and> (\<forall>k x. k \<noteq> name \<and> map_of (lt_filters t) k = Some x \<longrightarrow>
          map_of (spread [(''page'', Num 1)] (assign name v (lt_filters t))) k = Some x)
    \<and> (name \<noteq> ''page'' \<and> map_of (lt_filters t) ''page'' = None \<longrightarrow>
          map_of (spread [(''page'', Num 1)] (assign name v (lt_filters t))) ''page'' = Some (Num 1))
    \<and> page (snd (applyFilter name v (t, s))) = page s
    \<and> page (app_step (LogsSettled (length (pending_logs s)) (Resolved a))
               (snd (applyFilter name v (t, s)))) = 1
    \<and> page (app_step (LogsSettled (length (pending_logs s)) (Rejected e))
               (snd (applyFilter name v (t, s)))) = page s"
proof -
  have d: "distinct (map fst (assign name v (lt_filters t)))"
    using assms by (rule distinct_assign)
  have pend: "pending_logs (s\<lparr>filters := assign name v (lt_filters t)\<rparr>) = pending_logs s"
    by simp
  show ?thesis
    unfolding applyFilter_state snd_conv fst_conv
    using logs_settled_last [of "s\<lparr>filters := assign name v (lt_filters t)\<rparr>", unfolded pend]
    by (simp add: map_of_spread [OF d] map_of_assign)
       (simp add: fetchLogs_state fetches_def on_logs_def app_emit_def)
qed

theorem applyFilter_fetch_witness:
  "distinct (map fst (lt_filters service_chosen))
   \<and> app_effects (snd (applyFilter ''level'' (Text ''ERROR'') (service_chosen, on_page_three)))
       = app_effects on_page_three
         @ [GetLogs [(''page'', Num 1), (''service'', Text ''payment-svc''),
                     (''level'', Text ''ERROR''), (''anomaly_threshold'', Num (1 / 2)),
                     (''search'', Text [])]]
   \<and> page (snd (applyFilter ''level'' (Text ''ERROR'') (service_chosen, on_page_three))) = 3
   \<and> page (app_step (LogsSettled 1 (Resolved \<lparr>r_logs = None, r_total = None, r_pages = None\<rparr>))
        (snd (applyFilter ''level'' (Text ''ERROR'') (service_chosen, on_page_three)))) = 1"
proof -
  have d: "distinct (map fst (lt_filters service_chosen))"
    by code_simp
  have f: "lt_filters service_chosen
      = [(''service'', Text ''payment-svc''), (''level'', Text []),
         (''anomaly_threshold'', Num (1 / 2)), (''search'', Text [])]"
    by (simp add: service_chosen_def applyFilter_state logtable_initial_def)
  have g: "page on_page_three = 3" "length (pending_logs on_page_three) = 1"
    by code_simp+
  note r = applyFilter_fetch [OF d, of "''level''" "Text ''ERROR''" on_page_three
      "\<lparr>r_logs = None, r_total = None, r_pages = None\<rparr>", unfolded g]
  show ?thesis
    using d r by (simp add: f)
qed

text \<open>
  C4 as stated fails: with page 3 on display, a filter change whose request is rejected
  leaves page 3 on display.
\<close>

theorem filter_change_failed_fetch:
  "page on_page_three = 3
   \<and> page (app_step (LogsSettled 1 (Rejected ''Network Error''))
        (snd (applyFilter ''level'' (Text ''ERROR'') (logtable_initial, on_page_three)))) = 3"
  by code_simp


section \<open>The background refresh timer\<close>

lemma timer_view_request [simp]:
  "timer_view (fetchAnalytics s) = timer_view s"
  "timer_view (checkHealth s) = timer_view s"
  "timer_view (fetchLogs n f s) = timer_view s"
  by (simp_all add: timer_view_def fetchAnalytics_def checkHealth_def fetchLogs_def app_emit_def
      timer_starts_def timer_stops_def)

lemma timer_view_settled [simp]:
  "timer_view (on_analytics a s) = timer_view s"
  "timer_view (on_health b s) = timer_view s"
  "timer_view (on_logs n l s) = timer_view s"
  by (simp_all add: timer_view_def on_analytics_def on_health_def on_logs_def app_emit_def
      timer_starts_def timer_stops_def split: settled.splits)

lemma timer_view_fields [simp]:
  "timer_view (s\<lparr>filters := f\<rparr>) = timer_view s"
  "timer_view (s\<lparr>pending_analytics := n\<rparr>) = timer_view s"
  "timer_view (s\<lparr>pending_health := n\<rparr>) = timer_view s"
  "timer_view (s\<lparr>pending_logs := p\<rparr>) = timer_view s"
  by (simp_all add: timer_view_def)

lemma timer_view_step: "timer_view (app_step e s) = timer_view s"
  by (cases e)
     (simp_all add: handleFilterChange_def handlePageChange_def handleUploadComplete_def refresh_def)

lemma timer_view_run: "timer_view (app_run es s) = timer_view s"
  by (induction es arbitrary: s) (simp_all add: timer_view_step)

lemma timer_view_mount: "timer_view (mount app_initial) = (Some 1, [1], 1, 0)"
  by (simp add: timer_view_def mount_def app_initial_def Let_def fetchAnalytics_def checkHealth_def
      fetchLogs_def app_emit_def timer_starts_def timer_stops_def)

lemma timer_view_unmount:
  "timer_view s = (Some 1, [1], 1, 0) \<Longrightarrow> timer_view (unmount s) = (Some 1, [], 1, 1)"
  by (simp add: timer_view_def unmount_def app_emit_def timer_starts_def timer_stops_def)

lemma timer_view_lifetime: "timer_view (app_lifetime es) = (Some 1, [], 1, 1)"
  unfolding app_lifetime_def
  by (rule timer_view_unmount) (simp add: timer_view_run timer_view_mount)

lemma refresh_state:
  "refresh s = s\<lparr>pending_analytics := Suc (pending_analytics s),
                 pending_health := Suc (pending_health s),
                 app_effects := app_effects s @ [GetAnalytics, FetchHealth]\<rparr>"
  by (simp add: refresh_def fetchAnalytics_def checkHealth_def app_emit_def)

lemma timers_mounted: "app_timers (app_run es (mount app_initial)) = [1]"
proof -
  have "timer_view (app_run es (mount app_initial)) = (Some 1, [1], 1, 0)"
    by (simp only: timer_view_run timer_view_mount)
  then show ?thesis
    by (simp add: timer_view_def)
qed

text \<open>
  C9. Over the whole life of the application (mount, any events, unmount) exactly one
  interval is started and exactly one is cleared; between mount and unmount that one
  interval is running, and after unmount none is. A tick of a running interval sends
  exactly one analytics request and one health request and nothing else, and a tick of a
  handle that is not running does nothing. Neither a tick nor the answers to these two
  requests change the filters, the page or the log list (nor, for the tick, the total and
  the page count); the answers are stored as the analytics data and the liveness flag.
\<close>

theorem refresh_timer_frame:
  "timer_starts (app_effects (app_lifetime es)) = 1
   \<and> timer_stops (app_effects (app_lifetime es)) = 1
   \<and> app_timers (app_run es (mount app_initial)) = [1]
   \<and> app_timers (app_lifetime es) = []
   \<and> app_effects (refresh s) = app_effects s @ [GetAnalytics, FetchHealth]
   \<and> (h \<in> set (app_timers s) \<longrightarrow>
         app_effects (app_step (RefreshTick h) s) = app_effects s @ [GetAnalytics, FetchHealth]
       \<and> pending_analytics (app_step (RefreshTick h) s) = Suc (pending_analytics s)
       \<and> pending_health (app_step (RefreshTick h) s) = Suc (pending_health s)
       \<and> pending_logs (app_step (RefreshTick h) s) = pending_logs s)
   \<and> (h \<notin> set (app_timers s) \<longrightarrow> app_step (RefreshTick h) s = s)
   \<and> filters (app_step (RefreshTick h) s) = filters s
   \<and> page (app_step (RefreshTick h) s) = page s
   \<and> logs (app_step (RefreshTick h) s) = logs s
   \<and> total (app_step (RefreshTick h) s) = total s
   \<and> pages (app_step (RefreshTick h) s) = pages s
   \<and> filters (app_step (AnalyticsSettled a) s) = filters s
   \<and> page (app_step (AnalyticsSettled a) s) = page s
   \<and> logs (app_step (AnalyticsSettled a) s) = logs s
   \<and> filters (app_step (HealthSettled b) s) = filters s
   \<and> page (app_step (HealthSettled b) s) = page s
   \<and> logs (app_step (HealthSettled b) s) = logs s
   \<and> (pending_analytics s \<noteq> 0 \<longrightarrow>
         analytics (app_step (AnalyticsSettled (Resolved d)) s) = d)
   \<and> (pending_health s \<noteq> 0 \<longrightarrow>
         health (app_step (HealthSettled (Resolved ok)) s) = ok
       \<and> health (app_step (HealthSettled (Rejected m)) s) = False)"
proof -
  have life: "timer_starts (app_effects (app_lifetime es)) = 1
     \<and> timer_stops (app_effects (app_lifetime es)) = 1 \<and> app_timers (app_lifetime es) = []"
    using timer_view_lifetime [of es] by (simp add: timer_view_def)
  have live: "app_timers (app_run es (mount app_initial)) = [1]"
    by (rule timers_mounted)
  have sent: "h \<in> set (app_timers s) \<longrightarrow>
         app_effects (app_step (RefreshTick h) s) = app_effects s @ [GetAnalytics, FetchHealth]
       \<and> pending_analytics (app_step (RefreshTick h) s) = Suc (pending_analytics s)
       \<and> pending_health (app_step (RefreshTick h) s) = Suc (pending_health s)
       \<and> pending_logs (app_step (RefreshTick h) s) = pending_logs s"
    by (simp add: refresh_state)
  have idle: "h \<notin> set (app_timers s) \<longrightarrow> app_step (RefreshTick h) s = s"
    by simp
  have tick: "filters (app_step (RefreshTick h) s) = filters s
     \<and> page (app_step (RefreshTick h) s) = page s \<and> logs (app_step (RefreshTick h) s) = logs s
     \<and> total (app_step (RefreshTick h) s) = total s \<and> pages (app_step (RefreshTick h) s) = pages s"
    by (simp add: refresh_state)
  have an: "filters (app_step (AnalyticsSettled a) s) = filters s
     \<and> page (app_step (AnalyticsSettled a) s) = page s
     \<and> logs (app_step (AnalyticsSettled a) s) = logs s"
    by (cases a) (simp_all add: on_analytics_def app_emit_def)
  have he: "filters (app_step (HealthSettled b) s) = filters s
     \<and> page (app_step (HealthSettled b) s) = page s
     \<and> logs (app_step (HealthSettled b) s) = logs s"
    by (cases b) (simp_all add: on_health_def)
  have eff: "app_effects (refresh s) = app_effects s @ [GetAnalytics, FetchHealth]"
    by (simp add: refresh_state)
  have stored: "pending_analytics s \<noteq> 0 \<longrightarrow>
         analytics (app_step (AnalyticsSettled (Resolved d)) s) = d"
    by (simp add: on_analytics_def)
  have alive: "pending_health s \<noteq> 0 \<longrightarrow>
         health (app_step (HealthSettled (Resolved ok)) s) = ok
       \<and> health (app_step (HealthSettled (Rejected m)) s) = False"
    by (simp add: on_health_def)
  show ?thesis
    using life live sent idle tick an he eff stored alive by (simp only: simp_thms)
qed

theorem refresh_timer_frame_witness:
  "1 \<in> set (app_timers (mount app_initial))
   \<and> app_effects (app_step (RefreshTick 1) (mount app_initial))
       = [GetAnalytics, GetLogs [(''page'', Num 1)], FetchHealth, AppSetInterval 1,
          GetAnalytics, FetchHealth]
   \<and> 2 \<notin> set (app_timers (mount app_initial))
   \<and> app_step (RefreshTick 2) (mount app_initial) = mount app_initial
   \<and> pending_analytics (mount app_initial) \<noteq> 0
   \<and> analytics (app_step (AnalyticsSettled (Resolved [(''total_logs'', Num 250)]))
        (mount app_initial)) = [(''total_logs'', Num 250)]
   \<and> pending_health (mount app_initial) \<noteq> 0
   \<and> health (app_step (HealthSettled (Resolved True)) (mount app_initial))"
proof -
  have t: "1 \<in> set (app_timers (mount app_initial))" "2 \<notin> set (app_timers (mount app_initial))"
    by code_simp+
  have p: "pending_analytics (mount app_initial) \<noteq> 0" "pending_health (mount app_initial) \<noteq> 0"
    by code_simp+
  have e: "app_effects (mount app_initial)
      = [GetAnalytics, GetLogs [(''page'', Num 1)], FetchHealth, AppSetInterval 1]"
    by code_simp
  note a = refresh_timer_frame [where h = 1 and s = "mount app_initial"
      and d = "[(''total_logs'', Num 250)]" and ok = True, unfolded e]
  note b = refresh_timer_frame [where h = 2 and s = "mount app_initial"]
  show ?thesis
    using t p a b by simp
qed

end
